theory Spec2Isabelle
  imports Complex_Main
begin

section \<open>Strings as Python sees them\<close>

text \<open>
  The script works on Python \<open>str\<close> values. They are modelled as \<^typ>\<open>string\<close>,
  a list of characters, each character read as a code point below 256. On that range
  \<open>str.strip()\<close> removes the code points 9 to 13, 28 to 32, 133 and 160, and
  \<open>str.lower()\<close> maps A to Z and the capital letters 192 to 222 (but not the
  multiplication sign 215) to the code point 32 above them.
\<close>

definition is_space :: "char \<Rightarrow> bool" where
  "is_space c =
     (let n = (of_char c :: nat)
      in (9 \<le> n \<and> n \<le> 13) \<or> (28 \<le> n \<and> n \<le> 32) \<or> n = 133 \<or> n = 160)"

definition lower_char :: "char \<Rightarrow> char" where
  "lower_char c =
     (let n = (of_char c :: nat)
      in if (65 \<le> n \<and> n \<le> 90) \<or> (192 \<le> n \<and> n \<le> 222 \<and> n \<noteq> 215)
         then char_of (n + 32) else c)"

definition strip :: "string \<Rightarrow> string" where
  "strip s = rev (dropWhile is_space (rev (dropWhile is_space s)))"

definition lower :: "string \<Rightarrow> string" where
  "lower s = map lower_char s"

text \<open>\<open>s.replace(" ", "_")\<close>: both strings have one character, so the replacement is
  characterwise.\<close>

definition replace_space :: "string \<Rightarrow> string" where
  "replace_space s = map (\<lambda>c. if c = CHR '' '' then CHR ''_'' else c) s"

text \<open>\<open>find_str s c\<close> is \<open>s.find(c)\<close> for a one-character \<open>c\<close>: the index of its first occurrence,
  or -1.\<close>

fun find_from :: "char \<Rightarrow> string \<Rightarrow> int \<Rightarrow> int" where
  "find_from c [] k = -1"
| "find_from c (x # xs) k = (if x = c then k else find_from c xs (k + 1))"

definition find_str :: "string \<Rightarrow> char \<Rightarrow> int" where
  "find_str s c = find_from c s 0"

text \<open>\<open>s[k:]\<close>, the slice from \<open>k\<close> to the end; a negative \<open>k\<close> counts from the
  end of the string, and a start beyond either end is clamped.\<close>

definition slice_from :: "string \<Rightarrow> int \<Rightarrow> string" where
  "slice_from s k =
     (let n = int (length s); j = (if k < 0 then max 0 (n + k) else min k n)
      in drop (nat j) s)"

text \<open>\<open>sub in s\<close> on strings: \<open>sub\<close> occurs in \<open>s\<close> as a run of consecutive
  characters.\<close>

fun starts_with :: "string \<Rightarrow> string \<Rightarrow> bool" where
  "starts_with [] s = True"
| "starts_with (x # xs) [] = False"
| "starts_with (x # xs) (y # ys) = (x = y \<and> starts_with xs ys)"

fun str_in :: "string \<Rightarrow> string \<Rightarrow> bool" where
  "str_in sub [] = (sub = [])"
| "str_in sub (y # ys) = (starts_with sub (y # ys) \<or> str_in sub ys)"

section \<open>Template names\<close>

text \<open>\<open>standardize_template_names(t)\<close> is \<open>t.strip().lower().replace(" ", "_")\<close>.\<close>

definition standardize_template_names :: "string \<Rightarrow> string" where
  "standardize_template_names t = replace_space (lower (strip t))"

text \<open>
  \<open>build_template_list\<close> asks the wiki for the page of the main template and its
  redirects. The answer of the remote service is the parameter \<open>titles\<close>: the title of
  the page followed by those of its redirects. The body of the loop, for one title, is
  \<open>template_name_of\<close>.
\<close>

definition template_name_of :: "string \<Rightarrow> string" where
  "template_name_of title =
     (let name_start = find_str title CHR '':'' + 1
      in standardize_template_names (slice_from title name_start))"

fun build_template_list_loop :: "string list \<Rightarrow> string set \<Rightarrow> string set" where
  "build_template_list_loop [] template_names = template_names"
| "build_template_list_loop (title # ts) template_names =
     build_template_list_loop ts (insert (template_name_of title) template_names)"

definition build_template_list :: "string list \<Rightarrow> string set" where
  "build_template_list titles = build_template_list_loop titles {}"

text \<open>The two characterwise steps of \<open>standardize_template_names\<close> as one function,
  used to reason about it.\<close>

definition norm_char :: "char \<Rightarrow> char" where
  "norm_char c = (if lower_char c = CHR '' '' then CHR ''_'' else lower_char c)"

section \<open>Errors\<close>

text \<open>The exceptions that the modelled part of the script can raise.\<close>

datatype py_error = ValueError | ZeroDivisionError | UnboundLocalError

section \<open>Parsing a number\<close>

text \<open>
  \<open>float(s)\<close> on a string either gives a number or raises \<open>ValueError\<close>. The script
  throws the number away, so the model keeps only whether the string parses. Python
  accepts, between optional surrounding whitespace and after an optional sign, one of
  \<open>inf\<close>, \<open>infinity\<close>, \<open>nan\<close> in any letter case, or a decimal number: digits with
  an optional point (at least one digit on one side of it) and an optional exponent
  \<open>e\<close> or \<open>E\<close> with optional sign and digits. A single underscore may stand between
  two digits. The whitespace that \<open>float\<close> skips at both ends is not that of
  \<open>str.strip()\<close>: it is the code points 9 to 13, 32, 133 and 160 only, so the
  separators 28 to 31 make the string unparsable.
\<close>

definition is_float_space :: "char \<Rightarrow> bool" where
  "is_float_space c =
     (let n = (of_char c :: nat)
      in (9 \<le> n \<and> n \<le> 13) \<or> n = 32 \<or> n = 133 \<or> n = 160)"

definition float_strip :: "string \<Rightarrow> string" where
  "float_strip s = rev (dropWhile is_float_space (rev (dropWhile is_float_space s)))"

definition is_digit :: "char \<Rightarrow> bool" where
  "is_digit c = (let n = (of_char c :: nat) in 48 \<le> n \<and> n \<le> 57)"

fun digitpart :: "string \<Rightarrow> bool" where
  "digitpart [] = False"
| "digitpart [c] = is_digit c"
| "digitpart (c # d # r) =
     (is_digit c \<and> (if d = CHR ''_'' then digitpart r else digitpart (d # r)))"

definition drop_sign :: "string \<Rightarrow> string" where
  "drop_sign s =
     (case s of [] \<Rightarrow> [] | c # r \<Rightarrow> if c = CHR ''+'' \<or> c = CHR ''-'' then r else s)"

definition number :: "string \<Rightarrow> bool" where
  "number s =
     (let ip = takeWhile (\<lambda>c. c \<noteq> CHR ''.'') s;
          rest = dropWhile (\<lambda>c. c \<noteq> CHR ''.'') s
      in case rest of
           [] \<Rightarrow> digitpart ip
         | dot # fp \<Rightarrow> (ip = [] \<and> digitpart fp) \<or> (digitpart ip \<and> (fp = [] \<or> digitpart fp)))"

definition floatnumber :: "string \<Rightarrow> bool" where
  "floatnumber s =
     (let m = takeWhile (\<lambda>c. c \<noteq> CHR ''e'' \<and> c \<noteq> CHR ''E'') s;
          rest = dropWhile (\<lambda>c. c \<noteq> CHR ''e'' \<and> c \<noteq> CHR ''E'') s
      in case rest of
           [] \<Rightarrow> number m
         | e # ex \<Rightarrow> number m \<and> digitpart (drop_sign ex))"

definition infinity_or_nan :: "string \<Rightarrow> bool" where
  "infinity_or_nan s = (lower s \<in> set [''inf'', ''infinity'', ''nan''])"

definition float_parses :: "string \<Rightarrow> bool" where
  "float_parses s = (let t = drop_sign (float_strip s) in infinity_or_nan t \<or> floatnumber t)"

definition py_float :: "string \<Rightarrow> py_error + unit" where
  "py_float s = (if float_parses s then Inr () else Inl ValueError)"

section \<open>Template invocations and the classification predicates\<close>

text \<open>
  A template invocation as the wikitext parser hands it over: its name and its
  parameters in source order, each with the text of its name and of its value
  (a positional parameter is named by its position, \<open>1\<close>, \<open>2\<close>, ...). The field
  \<open>p_name\<close> is the parameter's \<open>name\<close>, \<open>p_value\<close> its \<open>value\<close>, \<open>t_name\<close> the
  template's \<open>name\<close> and \<open>t_params\<close> its \<open>params\<close>.
\<close>

record param =
  p_name :: string
  p_value :: string

record template =
  t_name :: string
  t_params :: "param list"

definition standardize_template_param_name :: "param \<Rightarrow> string" where
  "standardize_template_param_name p = lower (strip (p_name p))"

text \<open>
  \<open>coord\<close>: the loop over the parameters. \<open>float\<close> succeeding returns True at once;
  the \<open>except ValueError\<close> clause catches that error only and looks at the name; any
  other error would leave the function.
\<close>

fun coord_loop :: "param list \<Rightarrow> py_error + bool" where
  "coord_loop [] = Inr False"
| "coord_loop (p # ps) =
     (case py_float (p_value p) of
        Inr v \<Rightarrow> Inr True
      | Inl e \<Rightarrow>
          if e = ValueError
          then (if str_in ''latitude='' (p_name p) \<or> str_in ''dd='' (p_name p)
                then Inr True else coord_loop ps)
          else Inl e)"

definition coord :: "template \<Rightarrow> py_error + bool" where
  "coord t = coord_loop (t_params t)"

definition ac :: "template \<Rightarrow> bool" where
  "ac t =
     (case t_params t of
        [] \<Rightarrow> False
      | p # ps \<Rightarrow>
          if length (t_params t) > 1 \<or> \<not> standardize_template_param_name p = ''qid''
          then True else False)"

definition tb :: "template \<Rightarrow> bool" where
  "tb t =
     (case t_params t of
        [] \<Rightarrow> False
      | p # ps \<Rightarrow>
          if length (t_params t) > 1 \<or> \<not> standardize_template_param_name p = ''from''
          then True else False)"

definition bda :: "template \<Rightarrow> bool" where
  "bda t = True"

definition el :: "template \<Rightarrow> bool" where
  "el t =
     (case t_params t of
        [] \<Rightarrow> False
      | p # ps \<Rightarrow>
          if length (t_params t) = 1 \<and> standardize_template_param_name p = ''name''
          then False else True)"

section \<open>The scan over the dump\<close>

text \<open>
  The five template families, in the order in which \<open>main_templates\<close> lists them;
  the dictionaries \<open>wikidata_usage\<close> and \<open>template_names\<close> are filled and traversed
  in that order. \<open>func\<close> is the entry \<open>'func'\<close> of a family.
\<close>

datatype family = Cd | Ac | Tb | Bd | El

definition families :: "family list" where
  "families = [Cd, Ac, Tb, Bd, El]"

fun tag :: "family \<Rightarrow> string" where
  "tag Cd = ''cd''"
| "tag Ac = ''ac''"
| "tag Tb = ''tb''"
| "tag Bd = ''bd''"
| "tag El = ''el''"

fun func :: "family \<Rightarrow> template \<Rightarrow> py_error + bool" where
  "func Cd t = coord t"
| "func Ac t = Inr (ac t)"
| "func Tb t = Inr (tb t)"
| "func Bd t = Inr (bda t)"
| "func El t = Inr (el t)"

record counts =
  tracking :: int
  transclusion :: int

type_synonym usage = "family \<Rightarrow> counts"

type_synonym names = "family \<Rightarrow> string set"

text \<open>
  A page of the dump: its namespace, the title it redirects to if any, and its
  revisions. A revision is given by the list of template invocations that the wikitext
  parser finds in its text (\<open>filter_templates\<close>), in that order.
\<close>

record page =
  namespace :: int
  redirect :: "string option"
  revisions :: "template list list"

text \<open>
  A line printed by the progress and summary statements: the arguments of its format
  string, before they are turned into text. The quotient of two integers is kept as the
  exact rational number. An entry of \<open>status\<close> is \<open>Share w n q\<close> for a family with
  \<open>n\<close> counted invocations, a share \<open>q\<close> of them transclusions, and \<open>NoUse w n\<close> for the
  line with two dashes.
\<close>

datatype status_entry = Share family int rat | NoUse family int

datatype line = Line int int int rat int rat "status_entry list"

text \<open>
  The variables of \<open>main\<close> from the first loop on. \<open>idx\<close> is the loop variable \<open>i\<close>,
  unbound (\<open>None\<close>) until the first page is read. \<open>wbc\<close> and \<open>tracking_only\<close> are
  assigned at the start of every revision before they are read. \<open>stdout\<close> holds the lines
  printed from the scan on, \<open>fout\<close> the content of the output file once it is opened.
\<close>

record scan_state =
  wikidata_usage :: usage
  evaluated :: int
  prob_wbc :: int
  actual_wbc :: int
  wbc :: bool
  tracking_only :: bool
  idx :: "int option"
  stdout :: "line list"
  fout :: "string option"

text \<open>An exception that leaves \<open>main\<close> is kept with the state at that moment.\<close>

type_synonym result = "(py_error \<times> scan_state) + scan_state"

definition final_state :: "result \<Rightarrow> scan_state" where
  "final_state r = (case r of Inl (e, s) \<Rightarrow> s | Inr s \<Rightarrow> s)"

definition raised :: "result \<Rightarrow> py_error option" where
  "raised r = (case r of Inl (e, s) \<Rightarrow> Some e | Inr s \<Rightarrow> None)"

definition incr_tracking :: "usage \<Rightarrow> family \<Rightarrow> usage" where
  "incr_tracking u w = u(w := (u w)\<lparr>tracking := tracking (u w) + 1\<rparr>)"

definition incr_transclusion :: "usage \<Rightarrow> family \<Rightarrow> usage" where
  "incr_transclusion u w = u(w := (u w)\<lparr>transclusion := transclusion (u w) + 1\<rparr>)"

text \<open>The body of \<open>for t_check in template_names\<close>, for the invocation \<open>t\<close> whose
  normalized name is \<open>tn\<close>.\<close>

definition check_family :: "names \<Rightarrow> template \<Rightarrow> string \<Rightarrow> family \<Rightarrow> scan_state \<Rightarrow> result" where
  "check_family template_names t tn t_check s =
     (if tn \<in> template_names t_check
      then (case func t_check t of
              Inl e \<Rightarrow> Inl (e, s)
            | Inr b \<Rightarrow>
                if b
                then Inr (s\<lparr>wikidata_usage := incr_tracking (wikidata_usage s) t_check,
                            wbc := True\<rparr>)
                else Inr (s\<lparr>wikidata_usage := incr_transclusion (wikidata_usage s) t_check,
                            wbc := True, tracking_only := False\<rparr>))
      else Inr s)"

fun family_loop :: "names \<Rightarrow> template \<Rightarrow> string \<Rightarrow> family list \<Rightarrow> scan_state \<Rightarrow> result" where
  "family_loop template_names t tn [] s = Inr s"
| "family_loop template_names t tn (t_check # rest) s =
     (case check_family template_names t tn t_check s of
        Inl e \<Rightarrow> Inl e
      | Inr s' \<Rightarrow> family_loop template_names t tn rest s')"

text \<open>The body of \<open>for t in templates\<close>.\<close>

definition check_template :: "names \<Rightarrow> template \<Rightarrow> scan_state \<Rightarrow> result" where
  "check_template template_names t s =
     family_loop template_names t (standardize_template_names (t_name t)) families s"

fun template_loop :: "names \<Rightarrow> template list \<Rightarrow> scan_state \<Rightarrow> result" where
  "template_loop template_names [] s = Inr s"
| "template_loop template_names (t # ts) s =
     (case check_template template_names t s of
        Inl e \<Rightarrow> Inl e
      | Inr s' \<Rightarrow> template_loop template_names ts s')"

text \<open>The body of \<open>for revision in page\<close>.\<close>

definition eval_revision :: "names \<Rightarrow> template list \<Rightarrow> scan_state \<Rightarrow> result" where
  "eval_revision template_names templates s =
     (case template_loop template_names templates (s\<lparr>wbc := False, tracking_only := True\<rparr>) of
        Inl e \<Rightarrow> Inl e
      | Inr s1 \<Rightarrow>
          if wbc s1
          then (let s2 = s1\<lparr>prob_wbc := prob_wbc s1 + 1\<rparr>
                in if \<not> tracking_only s2
                   then Inr (s2\<lparr>actual_wbc := actual_wbc s2 + 1\<rparr>)
                   else Inr s2)
          else Inr s1)"

fun revision_loop :: "names \<Rightarrow> template list list \<Rightarrow> scan_state \<Rightarrow> result" where
  "revision_loop template_names [] s = Inr s"
| "revision_loop template_names (r # rs) s =
     (case eval_revision template_names r s of
        Inl e \<Rightarrow> Inl e
      | Inr s' \<Rightarrow> revision_loop template_names rs s')"

text \<open>\<open>page.namespace == 0 and not page.redirect\<close>: a missing redirect and an empty
  title both count as false.\<close>

definition is_article :: "page \<Rightarrow> bool" where
  "is_article pg =
     (namespace pg = 0 \<and> \<not> (case redirect pg of None \<Rightarrow> False | Some title \<Rightarrow> title \<noteq> []))"

definition eval_page :: "names \<Rightarrow> page \<Rightarrow> scan_state \<Rightarrow> result" where
  "eval_page template_names pg s =
     (if is_article pg
      then revision_loop template_names (revisions pg) (s\<lparr>evaluated := evaluated s + 1\<rparr>)
      else Inr s)"

text \<open>\<open>a / b\<close> on integers raises on a zero divisor.\<close>

definition py_truediv :: "int \<Rightarrow> int \<Rightarrow> py_error + rat" where
  "py_truediv a b = (if b = 0 then Inl ZeroDivisionError else Inr (of_int a / of_int b))"

definition status_entry_of :: "usage \<Rightarrow> family \<Rightarrow> status_entry" where
  "status_entry_of u w =
     (let n = tracking (u w) + transclusion (u w)
      in if n \<noteq> 0 then Share w n (of_int (transclusion (u w) * 100) / of_int n)
         else NoUse w n)"

definition status_of :: "usage \<Rightarrow> status_entry list" where
  "status_of u = map (status_entry_of u) families"

text \<open>The arguments of the summary format string are evaluated from left to right;
  the first failing one ends the statement before anything is printed.\<close>

definition summary_line :: "int option \<Rightarrow> scan_state \<Rightarrow> py_error + line" where
  "summary_line i s =
     (case i of
        None \<Rightarrow> Inl UnboundLocalError
      | Some k \<Rightarrow>
          (case py_truediv (prob_wbc s * 100) (evaluated s) of
             Inl e \<Rightarrow> Inl e
           | Inr p \<Rightarrow>
               (case py_truediv (100 * actual_wbc s) (evaluated s) of
                  Inl e \<Rightarrow> Inl e
                | Inr a \<Rightarrow>
                    Inr (Line k (evaluated s) (prob_wbc s) p (actual_wbc s) a
                           (status_of (wikidata_usage s))))))"

definition print_summary :: "scan_state \<Rightarrow> result" where
  "print_summary s =
     (case summary_line (idx s) s of
        Inl e \<Rightarrow> Inl (e, s)
      | Inr l \<Rightarrow> Inr (s\<lparr>stdout := stdout s @ [l]\<rparr>))"

text \<open>The loop \<open>for i, page in enumerate(dump, start=1)\<close>, from the page numbered \<open>i\<close>.\<close>

fun scan_loop :: "names \<Rightarrow> int \<Rightarrow> page list \<Rightarrow> scan_state \<Rightarrow> result" where
  "scan_loop template_names i [] s = Inr s"
| "scan_loop template_names i (pg # pages) s =
     (case eval_page template_names pg (s\<lparr>idx := Some i\<rparr>) of
        Inl e \<Rightarrow> Inl e
      | Inr s1 \<Rightarrow>
          if i mod 10000 = 0
          then (case print_summary s1 of
                  Inl e \<Rightarrow> Inl e
                | Inr s2 \<Rightarrow> scan_loop template_names (i + 1) pages s2)
          else scan_loop template_names (i + 1) pages s1)"

section \<open>The report\<close>

text \<open>\<open>str\<close> of an integer, as the format fields \<open>{0}\<close> print it.\<close>

fun digits :: "nat \<Rightarrow> string" where
  "digits n =
     (if n < 10 then [char_of (48 + n)]
      else digits (n div 10) @ [char_of (48 + n mod 10)])"

declare digits.simps [simp del]

definition str_int :: "int \<Rightarrow> string" where
  "str_int k = (if k < 0 then CHR ''-'' # digits (nat (- k)) else digits (nat k))"

definition tab :: char where
  "tab = CHR 0x09"

definition newline :: char where
  "newline = CHR 0x0A"

definition fout_write :: "string \<Rightarrow> scan_state \<Rightarrow> scan_state" where
  "fout_write text s = s\<lparr>fout := map_option (\<lambda>content. content @ text) (fout s)\<rparr>"

fun write_rows :: "family list \<Rightarrow> scan_state \<Rightarrow> scan_state" where
  "write_rows [] s = s"
| "write_rows (w # ws) s =
     write_rows ws
       (fout_write (tag w @ [tab] @ str_int (transclusion (wikidata_usage s w)) @ [tab]
                    @ str_int (tracking (wikidata_usage s w)) @ [newline]) s)"

text \<open>
  The end of \<open>main\<close>: the output file is opened (and so emptied), the rows are written,
  and the summary is printed inside the \<open>with\<close> block; the file is closed with what was
  written whether the summary fails or not. Opening the file and writing to it are taken
  to succeed.
\<close>

definition write_report :: "scan_state \<Rightarrow> scan_state" where
  "write_report s =
     (let s0 = s\<lparr>fout := Some []\<rparr>;
          s1 = fout_write (''type'' @ [tab] @ ''transclusion'' @ [tab] @ ''tracking'' @ [newline]) s0;
          s2 = fout_write (''total:'' @ str_int (evaluated s1) @ [tab, tab, newline]) s1;
          s3 = fout_write (''wbc_estimate'' @ [tab] @ str_int (actual_wbc s2) @ [tab]
                           @ str_int (prob_wbc s2 - actual_wbc s2) @ [newline]) s2
      in write_rows families s3)"

definition finish :: "scan_state \<Rightarrow> result" where
  "finish s = print_summary (write_report s)"

definition init_state :: scan_state where
  "init_state =
     \<lparr>wikidata_usage = (\<lambda>w. \<lparr>tracking = 0, transclusion = 0\<rparr>),
      evaluated = 0, prob_wbc = 0, actual_wbc = 0,
      wbc = False, tracking_only = True, idx = None, stdout = [], fout = None\<rparr>"

text \<open>\<open>main\<close> from the scan on, for the name tables \<open>template_names\<close> and the pages of
  the dump.\<close>

definition main_scan :: "names \<Rightarrow> page list \<Rightarrow> result" where
  "main_scan template_names dump =
     (case scan_loop template_names 1 dump init_state of
        Inl e \<Rightarrow> Inl e
      | Inr s \<Rightarrow> finish s)"

section \<open>Reading the report back\<close>

text \<open>
  What a reader of the output file sees. \<open>split_on c s\<close> is \<open>s.split(c)\<close> for a
  one-character separator. \<open>tsv_rows\<close> gives the lines of a file whose last line ends
  with a newline, each split into its columns at the tabs. \<open>int_of_str\<close> reads a decimal
  number. \<open>tsv_line\<close> joins three columns with tabs, and \<open>family_row\<close> is the line of
  a family.
\<close>

fun split_on :: "char \<Rightarrow> string \<Rightarrow> string list" where
  "split_on c [] = [[]]"
| "split_on c (x # xs) =
     (if x = c then [] # split_on c xs
      else (case split_on c xs of [] \<Rightarrow> [[x]] | piece # pieces \<Rightarrow> (x # piece) # pieces))"

definition tsv_rows :: "string \<Rightarrow> string list list" where
  "tsv_rows content = map (split_on tab) (butlast (split_on newline content))"

definition int_of_digits :: "string \<Rightarrow> int" where
  "int_of_digits ds = foldl (\<lambda>a c. 10 * a + (int (of_char c) - 48)) 0 ds"

definition int_of_str :: "string \<Rightarrow> int" where
  "int_of_str s =
     (case s of [] \<Rightarrow> 0
      | c # r \<Rightarrow> if c = CHR ''-'' then - int_of_digits r else int_of_digits s)"

definition tsv_line :: "string \<Rightarrow> string \<Rightarrow> string \<Rightarrow> string" where
  "tsv_line x y z = x @ [tab] @ y @ [tab] @ z"

definition family_row :: "scan_state \<Rightarrow> family \<Rightarrow> string" where
  "family_row s w =
     tsv_line (tag w) (str_int (transclusion (wikidata_usage s w)))
       (str_int (tracking (wikidata_usage s w)))"

section \<open>Notions used in the statements\<close>

text \<open>
  An invocation \<open>t\<close> is matched by a family \<open>w\<close> when its normalized name is in the
  name table of \<open>w\<close>; the family classifies it as tracking-only when its predicate
  returns true, and as transclusion otherwise. \<open>count_invocation\<close> is the change that
  one invocation is expected to make to the usage counters, \<open>count_invocations\<close> that
  of a list of invocations. \<open>any_match\<close> and \<open>any_transclusion\<close> say of the
  invocations of a revision that one of them is matched by a family, and that one of
  them is matched by a family that classifies it as transclusion.
\<close>

definition matched :: "names \<Rightarrow> template \<Rightarrow> family \<Rightarrow> bool" where
  "matched template_names t w = (standardize_template_names (t_name t) \<in> template_names w)"

definition tracks :: "family \<Rightarrow> template \<Rightarrow> bool" where
  "tracks w t = (func w t = Inr True)"

definition count_invocation :: "names \<Rightarrow> template \<Rightarrow> usage \<Rightarrow> usage" where
  "count_invocation template_names t u =
     (\<lambda>w. if matched template_names t w
          then (if tracks w t then (u w)\<lparr>tracking := tracking (u w) + 1\<rparr>
                else (u w)\<lparr>transclusion := transclusion (u w) + 1\<rparr>)
          else u w)"

definition any_match :: "names \<Rightarrow> template list \<Rightarrow> bool" where
  "any_match template_names templates = (\<exists>t \<in> set templates. \<exists>w. matched template_names t w)"

definition any_transclusion :: "names \<Rightarrow> template list \<Rightarrow> bool" where
  "any_transclusion template_names templates =
     (\<exists>t \<in> set templates. \<exists>w. matched template_names t w \<and> \<not> tracks w t)"

fun count_invocations :: "names \<Rightarrow> template list \<Rightarrow> usage \<Rightarrow> usage" where
  "count_invocations template_names [] u = u"
| "count_invocations template_names (t # ts) u =
     count_invocations template_names ts (count_invocation template_names t u)"

text \<open>The invocations that the scan loop meets in a list of pages, in order: those of
  the revisions of the pages that it evaluates.\<close>

definition invocations :: "page list \<Rightarrow> template list" where
  "invocations dump = concat (map (\<lambda>pg. concat (revisions pg)) (filter is_article dump))"

text \<open>No counter of \<open>u\<close> is larger than the same counter of \<open>v\<close>.\<close>

definition usage_le :: "usage \<Rightarrow> usage \<Rightarrow> bool" where
  "usage_le u v =
     (\<forall>w. tracking (u w) \<le> tracking (v w) \<and> transclusion (u w) \<le> transclusion (v w))"

text \<open>
  The three pages of the example dump, each with one revision, as the wikitext parser
  reads \<open>{{Coord|51.5|-0.1}}\<close>, \<open>{{Authority control|VIAF=1|LCCN=2}}\<close> and
  \<open>{{Authority control|QID=Q1}}\<close>; name tables for them; a page of the template
  namespace; and the tables with no name at all.
\<close>

definition page_A :: page where
  "page_A = \<lparr>namespace = 0, redirect = None,
     revisions = [[\<lparr>t_name = ''Coord'',
                    t_params = [\<lparr>p_name = ''1'', p_value = ''51.5''\<rparr>,
                                \<lparr>p_name = ''2'', p_value = ''-0.1''\<rparr>]\<rparr>]]\<rparr>"

definition page_B :: page where
  "page_B = \<lparr>namespace = 0, redirect = None,
     revisions = [[\<lparr>t_name = ''Authority control'',
                    t_params = [\<lparr>p_name = ''VIAF'', p_value = ''1''\<rparr>,
                                \<lparr>p_name = ''LCCN'', p_value = ''2''\<rparr>]\<rparr>]]\<rparr>"

definition page_C :: page where
  "page_C = \<lparr>namespace = 0, redirect = None,
     revisions = [[\<lparr>t_name = ''Authority control'',
                    t_params = [\<lparr>p_name = ''QID'', p_value = ''Q1''\<rparr>]\<rparr>]]\<rparr>"

definition example_names :: names where
  "example_names = (\<lambda>w. {})(Cd := {''coord''}, Ac := {''authority_control''})"

definition template_page :: page where
  "template_page = \<lparr>namespace = 10, redirect = None, revisions = [[]]\<rparr>"

definition no_names :: names where
  "no_names = (\<lambda>w. {})"

section \<open>Properties of the string operations\<close>

lemma is_space_lower_char: "is_space (lower_char c) = is_space c"
  by (auto simp add: is_space_def lower_char_def Let_def)

lemma lower_char_idem: "lower_char (lower_char c) = lower_char c"
  by (auto simp add: lower_char_def Let_def)

lemma lower_char_space: "(lower_char c = CHR '' '') = (c = CHR '' '')"
proof
  assume "lower_char c = CHR '' ''"
  then have "of_char (lower_char c) = (32 :: nat)"
    by simp
  then show "c = CHR '' ''"
    by (auto simp add: lower_char_def Let_def split: if_splits intro: of_char_eqI)
next
  assume "c = CHR '' ''"
  then show "lower_char c = CHR '' ''"
    by (simp add: lower_char_def)
qed

lemma is_space_blank: "is_space CHR '' ''"
  by (simp add: is_space_def)

lemma strip_no_space_ends:
  "strip s = [] \<or> (\<not> is_space (hd (strip s)) \<and> \<not> is_space (last (strip s)))"
proof (cases "dropWhile is_space s = []")
  case True
  have "strip s = []" unfolding strip_def True by simp
  then show ?thesis by simp
next
  case False
  define u where "u = dropWhile is_space s"
  have u: "u \<noteq> []" "\<not> is_space (hd u)"
    using False hd_dropWhile [of is_space s] by (simp_all add: u_def)
  have ne: "dropWhile is_space (rev u) \<noteq> []"
  proof
    assume "dropWhile is_space (rev u) = []"
    then have "\<forall>x\<in>set (rev u). is_space x"
      by (simp add: dropWhile_eq_Nil_conv)
    then have "is_space (hd u)" using u(1) by simp
    then show False using u(2) by simp
  qed
  obtain v where v: "dropWhile is_space (rev u) = v" by simp
  have hv: "\<not> is_space (hd v)"
    using ne hd_dropWhile [of is_space "rev u"] v by simp
  have "rev u = takeWhile is_space (rev u) @ v"
    using v takeWhile_dropWhile_id [of is_space "rev u"] by simp
  then have "u = rev v @ rev (takeWhile is_space (rev u))"
    by (metis rev_append rev_rev_ident)
  then have hdu: "hd u = hd (rev v)"
    using ne v by (metis hd_append2 rev_is_Nil_conv)
  have "strip s = rev v"
    by (simp add: strip_def u_def [symmetric] v)
  moreover have "rev v \<noteq> []" using ne v by simp
  moreover have "\<not> is_space (hd (rev v))" using hdu u(2) by simp
  moreover have "\<not> is_space (last (rev v))"
    using hv ne v by (simp add: last_rev)
  ultimately show ?thesis by simp
qed

lemma strip_fixed:
  assumes "t = [] \<or> (\<not> is_space (hd t) \<and> \<not> is_space (last t))"
  shows "strip t = t"
proof (cases t)
  case Nil
  then show ?thesis by (simp add: strip_def)
next
  case (Cons x xs)
  with assms have h: "\<not> is_space x" and l: "\<not> is_space (last t)" by simp_all
  have "dropWhile is_space t = t" using Cons h by simp
  moreover have "dropWhile is_space (rev t) = rev t"
  proof -
    have "rev t = last t # rev (butlast t)"
      using Cons by (metis append_butlast_last_id list.distinct(1) rev.simps(2) rev_append
          rev_rev_ident rev_singleton_conv append_Cons append_Nil)
    then show ?thesis using l by (metis dropWhile.simps(2))
  qed
  ultimately show ?thesis by (simp add: strip_def)
qed

lemma standardize_as_map: "standardize_template_names t = map norm_char (strip t)"
  by (simp add: standardize_template_names_def replace_space_def lower_def norm_char_def)

lemma norm_char_idem: "norm_char (norm_char c) = norm_char c"
proof (cases "c = CHR '' ''")
  case True
  then show ?thesis by (simp add: norm_char_def lower_char_def)
next
  case False
  then have "lower_char c \<noteq> CHR '' ''" by (simp add: lower_char_space)
  then show ?thesis by (simp add: norm_char_def lower_char_idem)
qed

lemma norm_char_not_space: "\<not> is_space c \<Longrightarrow> \<not> is_space (norm_char c)"
proof -
  assume a: "\<not> is_space c"
  then have "c \<noteq> CHR '' ''" using is_space_blank by auto
  then have "norm_char c = lower_char c" by (simp add: norm_char_def lower_char_space)
  then show ?thesis using a by (simp add: is_space_lower_char)
qed

lemma strip_standardized:
  "strip (standardize_template_names s) = standardize_template_names s"
proof (rule strip_fixed)
  let ?t = "strip s"
  show "standardize_template_names s = [] \<or>
        (\<not> is_space (hd (standardize_template_names s)) \<and>
         \<not> is_space (last (standardize_template_names s)))"
  proof (cases "?t = []")
    case True
    then show ?thesis by (simp add: standardize_as_map)
  next
    case False
    then have ends: "\<not> is_space (hd ?t)" "\<not> is_space (last ?t)"
      using strip_no_space_ends [of s] by simp_all
    have "hd (map norm_char ?t) = norm_char (hd ?t)"
      using False by (simp add: hd_map)
    moreover have "last (map norm_char ?t) = norm_char (last ?t)"
      using False by (simp add: last_map)
    ultimately show ?thesis
      using ends by (simp add: standardize_as_map norm_char_not_space)
  qed
qed

lemma find_from_absent: "c \<notin> set s \<Longrightarrow> find_from c s k = -1"
  by (induction s arbitrary: k) auto

lemma find_from_first:
  "c \<notin> set pre \<Longrightarrow> find_from c (pre @ c # rest) k = k + int (length pre)"
  by (induction pre arbitrary: k) auto

lemma build_template_list_loop_image:
  "build_template_list_loop titles acc = acc \<union> template_name_of ` set titles"
  by (induction titles arbitrary: acc) auto

section \<open>Name normalization\<close>

text \<open>
  Claim C7. Normalizing a template name twice gives the same string as normalizing it
  once, for every string; and the name \<open>"  Coord  "\<close> is normalized to \<open>"coord"\<close>.
\<close>

theorem standardize_template_names_idempotent:
  "standardize_template_names (standardize_template_names s) = standardize_template_names s
   \<and> standardize_template_names ''  Coord  '' = ''coord''"
proof
  have "standardize_template_names (standardize_template_names s)
        = map norm_char (strip (standardize_template_names s))"
    by (rule standardize_as_map)
  also have "\<dots> = map norm_char (standardize_template_names s)"
    by (simp only: strip_standardized)
  also have "\<dots> = map norm_char (map norm_char (strip s))"
    by (simp only: standardize_as_map)
  also have "\<dots> = map norm_char (strip s)"
    by (simp add: norm_char_idem)
  finally show "standardize_template_names (standardize_template_names s)
                = standardize_template_names s"
    by (simp only: standardize_as_map)
next
  show "standardize_template_names ''  Coord  '' = ''coord''"
    by code_simp
qed

section \<open>Namespace stripping in the template-name resolver\<close>

text \<open>
  Claim C10. In \<open>build_template_list\<close> every returned title loses its text up to and
  including the first colon, and what is left is normalized. A title with no colon is
  normalized whole (\<open>find\<close> gives -1, the slice starts at 0). In a title with further
  colons only the text up to the first one is dropped: \<open>Template:Foo:Bar\<close> gives
  \<open>foo:bar\<close>. The result is the set of the names so obtained.
\<close>

theorem build_template_list_namespace_stripping:
  "(CHR '':'' \<notin> set title \<longrightarrow>
      find_str title CHR '':'' = -1 \<and> template_name_of title = standardize_template_names title)
   \<and> (CHR '':'' \<notin> set pre \<longrightarrow>
      template_name_of (pre @ CHR '':'' # rest) = standardize_template_names rest)
   \<and> template_name_of ''Template:Foo:Bar'' = ''foo:bar''
   \<and> build_template_list titles = template_name_of ` set titles"
proof (intro conjI impI)
  assume a: "CHR '':'' \<notin> set title"
  then show f: "find_str title CHR '':'' = -1"
    by (simp add: find_str_def find_from_absent)
  then show "template_name_of title = standardize_template_names title"
    by (simp add: template_name_of_def slice_from_def)
next
  assume a: "CHR '':'' \<notin> set pre"
  then have "find_str (pre @ CHR '':'' # rest) CHR '':'' = int (length pre)"
    by (simp add: find_str_def find_from_first)
  moreover have "nat (int (length pre) + 1) = Suc (length pre)"
    by simp
  ultimately show "template_name_of (pre @ CHR '':'' # rest) = standardize_template_names rest"
    by (simp add: template_name_of_def slice_from_def Let_def)
next
  show "template_name_of ''Template:Foo:Bar'' = ''foo:bar''"
    by code_simp
next
  show "build_template_list titles = template_name_of ` set titles"
    by (simp add: build_template_list_def build_template_list_loop_image)
qed

theorem build_template_list_namespace_stripping_witness:
  "CHR '':'' \<notin> set ''Coord'' \<and> template_name_of ''Coord'' = ''coord''
   \<and> CHR '':'' \<notin> set ''Template''
   \<and> template_name_of ''Template:Authority control:x'' = ''authority_control:x''
   \<and> build_template_list [''Template:Coord'', ''Template:Coor d''] = {''coord'', ''coor_d''}"
proof -
  have n: "CHR '':'' \<notin> set ''Coord''" "CHR '':'' \<notin> set ''Template''"
    by simp_all
  have s1: "standardize_template_names ''Coord'' = ''coord''"
    by code_simp
  have s2: "standardize_template_names ''Authority control:x'' = ''authority_control:x''"
    by code_simp
  have s3: "standardize_template_names ''Coor d'' = ''coor_d''"
    by code_simp
  have t1: "template_name_of ''Template:Coord'' = ''coord''"
    using build_template_list_namespace_stripping [of "''Coord''" "''Template''" "''Coord''" "[]"]
      n s1 by simp
  have t2: "template_name_of ''Template:Coor d'' = ''coor_d''"
    using build_template_list_namespace_stripping [of "''Coord''" "''Template''" "''Coor d''" "[]"]
      n s3 by simp
  show ?thesis
    using build_template_list_namespace_stripping
      [of "''Coord''" "''Template''" "''Authority control:x''"
          "[''Template:Coord'', ''Template:Coor d'']"]
      n s1 s2 t1 t2 by simp
qed

section \<open>The classification predicates\<close>

lemma py_float_cases:
  "py_float s = (if float_parses s then Inr () else Inl ValueError)"
  by (simp add: py_float_def)

lemma coord_loop_result:
  "coord_loop ps =
     Inr (\<exists>p \<in> set ps. float_parses (p_value p) \<or>
            (\<not> float_parses (p_value p) \<and>
             (str_in ''latitude='' (p_name p) \<or> str_in ''dd='' (p_name p))))"
  by (induction ps) (auto simp add: py_float_cases)

text \<open>
  Claim C4. The coordinates predicate never raises: the error of an unparsable value is
  caught and the parameter's name is looked at instead. It returns true exactly when some
  parameter has a value that parses as a number or, its value failing to parse, a name
  containing \<open>latitude=\<close> or \<open>dd=\<close>; so it returns false on an invocation with no
  parameters. It is true for a parameter valued \<open>51.5\<close>, true for a parameter named
  \<open>latitude=\<close> with a non-numeric value, and false for a sole parameter named
  \<open>caption\<close> with value \<open>a castle\<close>. What parses as a number is what \<open>float\<close>
  accepts: decimal numbers with optional sign, point, exponent and single underscores
  between digits, the words \<open>inf\<close>, \<open>infinity\<close> and \<open>nan\<close> in any case, with
  blanks and line ends around them but not the separators 28 to 31; a value \<open>51.5\<close>
  behind the separator 28 does not parse, and the predicate is false on it.
\<close>

theorem coord_classification:
  "coord t =
     Inr (\<exists>p \<in> set (t_params t). float_parses (p_value p) \<or>
            (\<not> float_parses (p_value p) \<and>
             (str_in ''latitude='' (p_name p) \<or> str_in ''dd='' (p_name p))))
   \<and> coord \<lparr>t_name = n, t_params = []\<rparr> = Inr False
   \<and> py_float ''north'' = Inl ValueError
   \<and> coord \<lparr>t_name = n, t_params = [\<lparr>p_name = ''1'', p_value = ''51.5''\<rparr>]\<rparr> = Inr True
   \<and> coord \<lparr>t_name = n, t_params = [\<lparr>p_name = ''latitude='', p_value = ''north''\<rparr>]\<rparr>
       = Inr True
   \<and> coord \<lparr>t_name = n, t_params = [\<lparr>p_name = ''caption'', p_value = ''a castle''\<rparr>]\<rparr>
       = Inr False
   \<and> map float_parses
         [''51.5'', ''-0.1'', ''1e5'', ''1_0'', ''.5'', ''5.'', ''inf'', ''-Infinity'', ''NaN'',
          ''+.5e-3'', [CHR '' '', CHR ''7'', CHR 0x0A], [CHR 0xA0, CHR ''7'', CHR 0x85]]
       = [True, True, True, True, True, True, True, True, True, True, True, True]
   \<and> map float_parses
         [''a castle'', ''north'', [], ''.'', ''1__0'', ''1e'', ''0x10'', ''infinit'', ''1 2'',
          ''Q1'', CHR 0x1C # ''51.5'', ''51.5'' @ [CHR 0x1F]]
       = [False, False, False, False, False, False, False, False, False, False, False, False]
   \<and> coord \<lparr>t_name = n, t_params = [\<lparr>p_name = ''1'', p_value = CHR 0x1C # ''51.5''\<rparr>]\<rparr>
       = Inr False
   \<and> coord \<lparr>t_name = n, t_params = [\<lparr>p_name = ''1'', p_value = ''51.5'' @ [CHR 0x0A]\<rparr>]\<rparr>
       = Inr True"
proof -
  have f1: "float_parses ''51.5''" by code_simp
  have f2: "\<not> float_parses ''north''" by code_simp
  have f3: "\<not> float_parses ''a castle''" by code_simp
  have f4: "\<not> float_parses (CHR 0x1C # ''51.5'')" by code_simp
  have f5: "float_parses (''51.5'' @ [CHR 0x0A])" by code_simp
  have n1: "str_in ''latitude='' ''latitude=''" by code_simp
  have n2: "\<not> str_in ''latitude='' ''caption''" by code_simp
  have n3: "\<not> str_in ''dd='' ''caption''" by code_simp
  have n4: "\<not> str_in ''latitude='' ''1''" "\<not> str_in ''dd='' ''1''" by code_simp+
  have yes: "map float_parses
         [''51.5'', ''-0.1'', ''1e5'', ''1_0'', ''.5'', ''5.'', ''inf'', ''-Infinity'', ''NaN'',
          ''+.5e-3'', [CHR '' '', CHR ''7'', CHR 0x0A], [CHR 0xA0, CHR ''7'', CHR 0x85]]
       = [True, True, True, True, True, True, True, True, True, True, True, True]"
    by code_simp
  have no: "map float_parses
         [''a castle'', ''north'', [], ''.'', ''1__0'', ''1e'', ''0x10'', ''infinit'', ''1 2'',
          ''Q1'', CHR 0x1C # ''51.5'', ''51.5'' @ [CHR 0x1F]]
       = [False, False, False, False, False, False, False, False, False, False, False, False]"
    by code_simp
  have c: "coord t =
     Inr (\<exists>p \<in> set (t_params t). float_parses (p_value p) \<or>
            (\<not> float_parses (p_value p) \<and>
             (str_in ''latitude='' (p_name p) \<or> str_in ''dd='' (p_name p))))"
    by (simp only: coord_def coord_loop_result)
  have e: "coord \<lparr>t_name = n, t_params = []\<rparr> = Inr False"
    "py_float ''north'' = Inl ValueError"
    "coord \<lparr>t_name = n, t_params = [\<lparr>p_name = ''1'', p_value = ''51.5''\<rparr>]\<rparr> = Inr True"
    "coord \<lparr>t_name = n, t_params = [\<lparr>p_name = ''latitude='', p_value = ''north''\<rparr>]\<rparr>
       = Inr True"
    "coord \<lparr>t_name = n, t_params = [\<lparr>p_name = ''caption'', p_value = ''a castle''\<rparr>]\<rparr>
       = Inr False"
    "coord \<lparr>t_name = n, t_params = [\<lparr>p_name = ''1'', p_value = CHR 0x1C # ''51.5''\<rparr>]\<rparr>
       = Inr False"
    "coord \<lparr>t_name = n, t_params = [\<lparr>p_name = ''1'', p_value = ''51.5'' @ [CHR 0x0A]\<rparr>]\<rparr>
       = Inr True"
    unfolding coord_def coord_loop_result
    using f1 f2 f3 f4 f5 n1 n2 n3 n4 by (simp_all add: py_float_cases)
  show ?thesis
    using c e yes no by blast
qed

theorem coord_classification_witness:
  "coord \<lparr>t_name = ''Coord'',
          t_params = [\<lparr>p_name = ''display'', p_value = ''title''\<rparr>,
                      \<lparr>p_name = ''2'', p_value = '' -0.1''\<rparr>]\<rparr> = Inr True
   \<and> coord \<lparr>t_name = ''Coord'',
            t_params = [\<lparr>p_name = ''display'', p_value = ''title''\<rparr>]\<rparr> = Inr False"
proof -
  have f1: "\<not> float_parses ''title''" by code_simp
  have f2: "float_parses '' -0.1''" by code_simp
  have n1: "\<not> str_in ''latitude='' ''display''" by code_simp
  have n2: "\<not> str_in ''dd='' ''display''" by code_simp
  show ?thesis
    using coord_classification
      [of "\<lparr>t_name = ''Coord'',
            t_params = [\<lparr>p_name = ''display'', p_value = ''title''\<rparr>,
                        \<lparr>p_name = ''2'', p_value = '' -0.1''\<rparr>]\<rparr>"]
      coord_classification
      [of "\<lparr>t_name = ''Coord'',
            t_params = [\<lparr>p_name = ''display'', p_value = ''title''\<rparr>]\<rparr>"]
      f1 f2 n1 n2
    by simp
qed

text \<open>
  Claim C2, as stated: the authority-control predicate is true on every invocation that
  does not have exactly one parameter, so also on one with no parameters; the same for
  the taxon-bar predicate. The code returns false on an invocation with no parameters.
\<close>

theorem ac_tb_no_params_counterexample:
  "t_params \<lparr>t_name = ''Authority control'', t_params = []\<rparr> = []
   \<and> ac \<lparr>t_name = ''Authority control'', t_params = []\<rparr> = False
   \<and> tb \<lparr>t_name = ''Taxonbar'', t_params = []\<rparr> = False"
  by (simp add: ac_def tb_def)

text \<open>
  Claim C2, amended. The authority-control predicate returns false (transclusion) exactly
  when the invocation has no parameters, or has exactly one parameter and the normalized
  (trimmed, lowercased) name of that parameter is \<open>qid\<close>; it returns true in every other
  case. The taxon-bar predicate does the same with the name \<open>from\<close>.
\<close>

theorem ac_tb_transclusion_iff:
  "(ac t = False) =
     (t_params t = [] \<or> (\<exists>p. t_params t = [p] \<and> standardize_template_param_name p = ''qid''))
   \<and> (tb t = False) =
     (t_params t = [] \<or> (\<exists>p. t_params t = [p] \<and> standardize_template_param_name p = ''from''))"
proof
  show "(ac t = False) =
     (t_params t = [] \<or> (\<exists>p. t_params t = [p] \<and> standardize_template_param_name p = ''qid''))"
    by (cases "t_params t") (auto simp add: ac_def)
next
  show "(tb t = False) =
     (t_params t = [] \<or> (\<exists>p. t_params t = [p] \<and> standardize_template_param_name p = ''from''))"
    by (cases "t_params t") (auto simp add: tb_def)
qed

theorem ac_tb_transclusion_iff_witness:
  "ac \<lparr>t_name = ''Authority control'', t_params = [\<lparr>p_name = '' QID '', p_value = ''Q1''\<rparr>]\<rparr>
     = False
   \<and> ac \<lparr>t_name = ''Authority control'',
          t_params = [\<lparr>p_name = ''VIAF'', p_value = ''1''\<rparr>, \<lparr>p_name = ''LCCN'', p_value = ''2''\<rparr>]\<rparr>
     = True
   \<and> tb \<lparr>t_name = ''Taxonbar'', t_params = [\<lparr>p_name = ''From'', p_value = ''Q1''\<rparr>]\<rparr> = False
   \<and> tb \<lparr>t_name = ''Taxonbar'', t_params = [\<lparr>p_name = ''qid'', p_value = ''Q1''\<rparr>]\<rparr> = True"
proof -
  have n1: "standardize_template_param_name \<lparr>p_name = '' QID '', p_value = ''Q1''\<rparr> = ''qid''"
    by code_simp
  have n2: "standardize_template_param_name \<lparr>p_name = ''From'', p_value = ''Q1''\<rparr> = ''from''"
    by code_simp
  have n3: "standardize_template_param_name \<lparr>p_name = ''qid'', p_value = ''Q1''\<rparr> \<noteq> ''from''"
    by code_simp
  show ?thesis
    using
      ac_tb_transclusion_iff
        [of "\<lparr>t_name = ''Authority control'',
              t_params = [\<lparr>p_name = '' QID '', p_value = ''Q1''\<rparr>]\<rparr>"]
      ac_tb_transclusion_iff
        [of "\<lparr>t_name = ''Authority control'',
              t_params = [\<lparr>p_name = ''VIAF'', p_value = ''1''\<rparr>,
                          \<lparr>p_name = ''LCCN'', p_value = ''2''\<rparr>]\<rparr>"]
      ac_tb_transclusion_iff
        [of "\<lparr>t_name = ''Taxonbar'', t_params = [\<lparr>p_name = ''From'', p_value = ''Q1''\<rparr>]\<rparr>"]
      ac_tb_transclusion_iff
        [of "\<lparr>t_name = ''Taxonbar'', t_params = [\<lparr>p_name = ''qid'', p_value = ''Q1''\<rparr>]\<rparr>"]
      n1 n2 n3
    by simp
qed

text \<open>
  Claim C3, as stated: the external-link predicate is false only on an invocation with
  exactly one parameter, and true on one with no parameters. The code returns false on
  an invocation with no parameters.
\<close>

theorem el_no_params_counterexample:
  "t_params \<lparr>t_name = ''IMDb name'', t_params = []\<rparr> = []
   \<and> el \<lparr>t_name = ''IMDb name'', t_params = []\<rparr> = False"
  by (simp add: el_def)

text \<open>
  Claim C3, amended. The external-link predicate returns false (transclusion) exactly
  when the invocation has no parameters, or has exactly one parameter and the normalized
  (trimmed, lowercased) name of that parameter is \<open>name\<close>, whatever its value; it
  returns true in every other case, so on an invocation with two parameters named
  \<open>name\<close> and \<open>url\<close>.
\<close>

theorem el_transclusion_iff:
  "(el t = False) =
     (t_params t = [] \<or> (\<exists>p. t_params t = [p] \<and> standardize_template_param_name p = ''name''))
   \<and> el \<lparr>t_name = n, t_params = [\<lparr>p_name = ''name'', p_value = v\<rparr>]\<rparr> = False
   \<and> el \<lparr>t_name = n,
          t_params = [\<lparr>p_name = ''name'', p_value = v\<rparr>, \<lparr>p_name = ''url'', p_value = w\<rparr>]\<rparr>
       = True"
proof (intro conjI)
  show "(el t = False) =
     (t_params t = [] \<or> (\<exists>p. t_params t = [p] \<and> standardize_template_param_name p = ''name''))"
    by (cases "t_params t") (auto simp add: el_def)
next
  have "lower (strip ''name'') = ''name''" by code_simp
  then show "el \<lparr>t_name = n, t_params = [\<lparr>p_name = ''name'', p_value = v\<rparr>]\<rparr> = False"
    by (simp add: el_def standardize_template_param_name_def)
next
  show "el \<lparr>t_name = n,
          t_params = [\<lparr>p_name = ''name'', p_value = v\<rparr>, \<lparr>p_name = ''url'', p_value = w\<rparr>]\<rparr>
       = True"
    by (simp add: el_def)
qed

theorem el_transclusion_iff_witness:
  "el \<lparr>t_name = ''IMDb name'', t_params = [\<lparr>p_name = ''Name '', p_value = ''Ann''\<rparr>]\<rparr> = False
   \<and> el \<lparr>t_name = ''IMDb name'', t_params = [\<lparr>p_name = ''id'', p_value = ''42''\<rparr>]\<rparr> = True"
proof -
  have n1: "standardize_template_param_name \<lparr>p_name = ''Name '', p_value = ''Ann''\<rparr> = ''name''"
    by code_simp
  have n2: "standardize_template_param_name \<lparr>p_name = ''id'', p_value = ''42''\<rparr> \<noteq> ''name''"
    by code_simp
  show ?thesis
    using
      el_transclusion_iff
        [of "\<lparr>t_name = ''IMDb name'', t_params = [\<lparr>p_name = ''Name '', p_value = ''Ann''\<rparr>]\<rparr>"]
      el_transclusion_iff
        [of "\<lparr>t_name = ''IMDb name'', t_params = [\<lparr>p_name = ''id'', p_value = ''42''\<rparr>]\<rparr>"]
      n1 n2
    by simp
qed

section \<open>What one invocation, one revision and one page do to the state\<close>

lemma func_total: "func w t = Inr (tracks w t)"
  by (cases w) (auto simp add: tracks_def coord_def coord_loop_result)

lemma check_family_effect:
  "check_family nm t tn w s =
     Inr (if tn \<in> nm w
          then (if tracks w t
                then s\<lparr>wikidata_usage := incr_tracking (wikidata_usage s) w, wbc := True\<rparr>
                else s\<lparr>wikidata_usage := incr_transclusion (wikidata_usage s) w,
                       wbc := True, tracking_only := False\<rparr>)
          else s)"
  by (simp add: check_family_def func_total)

lemma family_loop_effect:
  "distinct fs \<Longrightarrow>
   family_loop nm t tn fs s =
     Inr (s\<lparr>wikidata_usage :=
              (\<lambda>w. if w \<in> set fs \<and> tn \<in> nm w
                   then (if tracks w t then (wikidata_usage s w)\<lparr>tracking := tracking (wikidata_usage s w) + 1\<rparr>
                         else (wikidata_usage s w)\<lparr>transclusion := transclusion (wikidata_usage s w) + 1\<rparr>)
                   else wikidata_usage s w),
            wbc := wbc s \<or> (\<exists>w \<in> set fs. tn \<in> nm w),
            tracking_only := tracking_only s \<and> (\<forall>w \<in> set fs. tn \<in> nm w \<longrightarrow> tracks w t)\<rparr>)"
proof (induction fs arbitrary: s)
  case Nil
  then show ?case by simp
next
  case (Cons f fs)
  then have d: "distinct fs" and nf: "f \<notin> set fs" by simp_all
  show ?case
    using nf
    apply (simp add: check_family_effect Cons.IH [OF d])
    apply (cases s)
    apply (auto simp add: fun_eq_iff incr_tracking_def incr_transclusion_def)
    done
qed

lemma families_all: "distinct families" "w \<in> set families"
  by (simp add: families_def, cases w, simp_all add: families_def)

lemma bex_families: "(\<exists>w \<in> set families. P w) = (\<exists>w. P w)"
  using families_all(2) by blast

lemma ball_families: "(\<forall>w \<in> set families. P w) = (\<forall>w. P w)"
  using families_all(2) by blast

lemma check_template_effect:
  "check_template nm t s =
     Inr (s\<lparr>wikidata_usage := count_invocation nm t (wikidata_usage s),
            wbc := wbc s \<or> (\<exists>w. matched nm t w),
            tracking_only := tracking_only s \<and> (\<forall>w. matched nm t w \<longrightarrow> tracks w t)\<rparr>)"
  by (simp add: check_template_def family_loop_effect families_all count_invocation_def
      matched_def bex_families ball_families)

lemma template_loop_effect:
  "template_loop nm ts s =
     Inr (s\<lparr>wikidata_usage := count_invocations nm ts (wikidata_usage s),
            wbc := wbc s \<or> any_match nm ts,
            tracking_only := tracking_only s \<and> \<not> any_transclusion nm ts\<rparr>)"
proof (induction ts arbitrary: s)
  case Nil
  then show ?case by (simp add: any_match_def any_transclusion_def)
next
  case (Cons t ts)
  show ?case
    apply (simp add: check_template_effect Cons.IH)
    apply (cases s)
    apply (auto simp add: any_match_def any_transclusion_def)
    done
qed

lemma any_transclusion_match: "any_transclusion nm ts \<Longrightarrow> any_match nm ts"
  by (auto simp add: any_match_def any_transclusion_def)

lemma eval_revision_effect:
  "eval_revision nm ts s =
     Inr (s\<lparr>wikidata_usage := count_invocations nm ts (wikidata_usage s),
            wbc := any_match nm ts,
            tracking_only := \<not> any_transclusion nm ts,
            prob_wbc := prob_wbc s + (if any_match nm ts then 1 else 0),
            actual_wbc := actual_wbc s + (if any_transclusion nm ts then 1 else 0)\<rparr>)"
  using any_transclusion_match [of nm ts]
  by (cases s) (auto simp add: eval_revision_def template_loop_effect Let_def)


lemma count_invocations_append:
  "count_invocations nm (xs @ ys) u = count_invocations nm ys (count_invocations nm xs u)"
  by (induction xs arbitrary: u) simp_all

lemma revision_loop_effect:
  "\<exists>s'. revision_loop nm rs s = Inr s'
     \<and> wikidata_usage s' = count_invocations nm (concat rs) (wikidata_usage s)
     \<and> prob_wbc s' = prob_wbc s + int (length (filter (any_match nm) rs))
     \<and> actual_wbc s' = actual_wbc s + int (length (filter (any_transclusion nm) rs))
     \<and> evaluated s' = evaluated s \<and> idx s' = idx s \<and> stdout s' = stdout s \<and> fout s' = fout s"
proof (induction rs arbitrary: s)
  case Nil
  then show ?case by simp
next
  case (Cons r rs)
  define s1 where "s1 = s\<lparr>wikidata_usage := count_invocations nm r (wikidata_usage s),
            wbc := any_match nm r,
            tracking_only := \<not> any_transclusion nm r,
            prob_wbc := prob_wbc s + (if any_match nm r then 1 else 0),
            actual_wbc := actual_wbc s + (if any_transclusion nm r then 1 else 0)\<rparr>"
  have e: "eval_revision nm r s = Inr s1"
    by (simp add: eval_revision_effect s1_def)
  obtain s' where s': "revision_loop nm rs s1 = Inr s'"
    "wikidata_usage s' = count_invocations nm (concat rs) (wikidata_usage s1)"
    "prob_wbc s' = prob_wbc s1 + int (length (filter (any_match nm) rs))"
    "actual_wbc s' = actual_wbc s1 + int (length (filter (any_transclusion nm) rs))"
    "evaluated s' = evaluated s1" "idx s' = idx s1" "stdout s' = stdout s1" "fout s' = fout s1"
    using Cons.IH [of s1] by blast
  have "revision_loop nm (r # rs) s = Inr s'"
    using e s'(1) by simp
  moreover have "wikidata_usage s' = count_invocations nm (concat (r # rs)) (wikidata_usage s)"
    using s'(2) by (simp add: s1_def count_invocations_append)
  moreover have "prob_wbc s' = prob_wbc s + int (length (filter (any_match nm) (r # rs)))"
    using s'(3) by (simp add: s1_def)
  moreover have "actual_wbc s' = actual_wbc s + int (length (filter (any_transclusion nm) (r # rs)))"
    using s'(4) by (simp add: s1_def)
  moreover have "evaluated s' = evaluated s \<and> idx s' = idx s \<and> stdout s' = stdout s \<and> fout s' = fout s"
    using s'(5-8) by (simp add: s1_def)
  ultimately show ?case by blast
qed

lemma eval_page_effect:
  "\<exists>s'. eval_page nm pg s = Inr s'
     \<and> wikidata_usage s' =
         (if is_article pg then count_invocations nm (concat (revisions pg)) (wikidata_usage s)
          else wikidata_usage s)
     \<and> prob_wbc s' = prob_wbc s
         + (if is_article pg then int (length (filter (any_match nm) (revisions pg))) else 0)
     \<and> actual_wbc s' = actual_wbc s
         + (if is_article pg then int (length (filter (any_transclusion nm) (revisions pg))) else 0)
     \<and> evaluated s' = evaluated s + (if is_article pg then 1 else 0)
     \<and> idx s' = idx s \<and> stdout s' = stdout s \<and> fout s' = fout s"
proof (cases "is_article pg")
  case True
  then show ?thesis
    using revision_loop_effect [of nm "revisions pg" "s\<lparr>evaluated := evaluated s + 1\<rparr>"]
    by (simp add: eval_page_def)
next
  case False
  then show ?thesis by (simp add: eval_page_def)
qed

section \<open>Probable and confirmed pages\<close>

text \<open>
  Claim C1, as stated: a page adds to the confirmed count only if every matched
  invocation on it was classified as transclusion. On the page below the invocation of
  \<open>Coord\<close> is matched and classified as tracking-only, the one of
  \<open>Authority control\<close> as transclusion, and the confirmed count goes up by one.
\<close>

theorem tracking_invocation_suppresses_counterexample:
  "matched example_names
     \<lparr>t_name = ''Coord'', t_params = [\<lparr>p_name = ''1'', p_value = ''51.5''\<rparr>]\<rparr> Cd
   \<and> tracks Cd \<lparr>t_name = ''Coord'', t_params = [\<lparr>p_name = ''1'', p_value = ''51.5''\<rparr>]\<rparr>
   \<and> actual_wbc (final_state (eval_page example_names
        \<lparr>namespace = 0, redirect = None,
         revisions = [[\<lparr>t_name = ''Coord'', t_params = [\<lparr>p_name = ''1'', p_value = ''51.5''\<rparr>]\<rparr>,
                       \<lparr>t_name = ''Authority control'',
                        t_params = [\<lparr>p_name = ''QID'', p_value = ''Q1''\<rparr>]\<rparr>]]\<rparr>
        init_state))
     = actual_wbc init_state + 1"
  by code_simp


text \<open>
  Claim C1, amended. A page outside namespace 0 or a redirect changes neither count.
  For a page that the scan loop evaluates, once for each of its revisions (the dump of
  current revisions has one per page): the probable count \<open>prob_wbc\<close> goes up by one
  exactly when at least one template invocation of the revision is matched by a tracked
  family, and the confirmed count \<open>actual_wbc\<close> goes up by one exactly when at least
  one matched invocation of the revision is classified as transclusion. An invocation
  classified as tracking-only does not hold back the confirmed count when another
  invocation of the same revision is classified as transclusion.
\<close>

theorem page_probable_and_confirmed:
  "(\<exists>s'. eval_page nm pg s = Inr s'
      \<and> prob_wbc s' = prob_wbc s
          + (if is_article pg then int (length (filter (any_match nm) (revisions pg))) else 0)
      \<and> actual_wbc s' = actual_wbc s
          + (if is_article pg then int (length (filter (any_transclusion nm) (revisions pg)))
             else 0))
   \<and> (is_article pg \<and> revisions pg = [templates] \<longrightarrow>
        prob_wbc (final_state (eval_page nm pg s)) = prob_wbc s
          + (if \<exists>t \<in> set templates. \<exists>w. matched nm t w then 1 else 0)
      \<and> actual_wbc (final_state (eval_page nm pg s)) = actual_wbc s
          + (if \<exists>t \<in> set templates. \<exists>w. matched nm t w \<and> \<not> tracks w t then 1 else 0))"
proof -
  obtain s' where s': "eval_page nm pg s = Inr s'"
    "prob_wbc s' = prob_wbc s
       + (if is_article pg then int (length (filter (any_match nm) (revisions pg))) else 0)"
    "actual_wbc s' = actual_wbc s
       + (if is_article pg then int (length (filter (any_transclusion nm) (revisions pg)))
          else 0)"
    using eval_page_effect [of nm pg s] by blast
  have "final_state (eval_page nm pg s) = s'"
    using s'(1) by (simp add: final_state_def)
  then show ?thesis
    using s' by (auto simp add: any_match_def any_transclusion_def)
qed

theorem page_probable_and_confirmed_witness:
  "is_article
     \<lparr>namespace = 0, redirect = None,
      revisions = [[\<lparr>t_name = ''Coord'', t_params = [\<lparr>p_name = ''1'', p_value = ''51.5''\<rparr>]\<rparr>,
                    \<lparr>t_name = ''Authority control'',
                     t_params = [\<lparr>p_name = ''QID'', p_value = ''Q1''\<rparr>]\<rparr>]]\<rparr>
   \<and> prob_wbc (final_state (eval_page example_names
        \<lparr>namespace = 0, redirect = None,
         revisions = [[\<lparr>t_name = ''Coord'', t_params = [\<lparr>p_name = ''1'', p_value = ''51.5''\<rparr>]\<rparr>,
                       \<lparr>t_name = ''Authority control'',
                        t_params = [\<lparr>p_name = ''QID'', p_value = ''Q1''\<rparr>]\<rparr>]]\<rparr>
        init_state)) = 1
   \<and> actual_wbc (final_state (eval_page example_names
        \<lparr>namespace = 0, redirect = None,
         revisions = [[\<lparr>t_name = ''Coord'', t_params = [\<lparr>p_name = ''1'', p_value = ''51.5''\<rparr>]\<rparr>,
                       \<lparr>t_name = ''Authority control'',
                        t_params = [\<lparr>p_name = ''QID'', p_value = ''Q1''\<rparr>]\<rparr>]]\<rparr>
        init_state)) = 1"
proof -
  let ?c = "\<lparr>t_name = ''Coord'', t_params = [\<lparr>p_name = ''1'', p_value = ''51.5''\<rparr>]\<rparr>"
  let ?a = "\<lparr>t_name = ''Authority control'', t_params = [\<lparr>p_name = ''QID'', p_value = ''Q1''\<rparr>]\<rparr>"
  let ?pg = "\<lparr>namespace = 0, redirect = None, revisions = [[?c, ?a]]\<rparr>"
  have art: "is_article ?pg" by code_simp
  have m: "matched example_names ?a Ac" by code_simp
  have n: "\<not> tracks Ac ?a" by code_simp
  have ex1: "\<exists>t \<in> set [?c, ?a]. \<exists>w. matched example_names t w"
    using m by auto
  have ex2: "\<exists>t \<in> set [?c, ?a]. \<exists>w. matched example_names t w \<and> \<not> tracks w t"
    using m n by auto
  have z: "prob_wbc init_state = 0" "actual_wbc init_state = 0"
    by (simp_all add: init_state_def)
  show ?thesis
    using page_probable_and_confirmed [of example_names ?pg init_state "[?c, ?a]"]
      art ex1 ex2 z
    by simp
qed

section \<open>The end of the run\<close>

lemma fout_write_fields:
  "wikidata_usage (fout_write x s) = wikidata_usage s"
  "evaluated (fout_write x s) = evaluated s"
  "prob_wbc (fout_write x s) = prob_wbc s"
  "actual_wbc (fout_write x s) = actual_wbc s"
  "idx (fout_write x s) = idx s"
  "stdout (fout_write x s) = stdout s"
  by (simp_all add: fout_write_def)

lemma write_rows_fields:
  "wikidata_usage (write_rows ws s) = wikidata_usage s
   \<and> evaluated (write_rows ws s) = evaluated s
   \<and> prob_wbc (write_rows ws s) = prob_wbc s
   \<and> actual_wbc (write_rows ws s) = actual_wbc s
   \<and> idx (write_rows ws s) = idx s
   \<and> stdout (write_rows ws s) = stdout s"
  by (induction ws arbitrary: s) (simp_all add: fout_write_fields)

lemma write_report_fields:
  "wikidata_usage (write_report s) = wikidata_usage s"
  "evaluated (write_report s) = evaluated s"
  "prob_wbc (write_report s) = prob_wbc s"
  "actual_wbc (write_report s) = actual_wbc s"
  "idx (write_report s) = idx s"
  "stdout (write_report s) = stdout s"
  by (simp_all add: write_report_def Let_def write_rows_fields fout_write_fields)

lemma print_summary_ok:
  assumes "evaluated s \<noteq> 0" "idx s = Some k"
  shows "\<exists>s'. print_summary s = Inr s' \<and> wikidata_usage s' = wikidata_usage s
           \<and> evaluated s' = evaluated s \<and> prob_wbc s' = prob_wbc s
           \<and> actual_wbc s' = actual_wbc s \<and> fout s' = fout s \<and> idx s' = idx s"
  using assms by (simp add: print_summary_def summary_line_def py_truediv_def)

lemma finish_ok:
  assumes "evaluated s \<noteq> 0" "idx s = Some k"
  shows "\<exists>s'. finish s = Inr s' \<and> wikidata_usage s' = wikidata_usage s
           \<and> evaluated s' = evaluated s \<and> prob_wbc s' = prob_wbc s
           \<and> actual_wbc s' = actual_wbc s"
  using print_summary_ok [of "write_report s" k] assms
  by (auto simp add: finish_def write_report_fields)

lemma count_invocation_tracking:
  "tracking (count_invocation nm t u w)
     = tracking (u w) + (if matched nm t w \<and> tracks w t then 1 else 0)"
  by (simp add: count_invocation_def)

lemma count_invocation_transclusion:
  "transclusion (count_invocation nm t u w)
     = transclusion (u w) + (if matched nm t w \<and> \<not> tracks w t then 1 else 0)"
  by (simp add: count_invocation_def)

lemma example_tracks_A:
  "tracks w \<lparr>t_name = ''Coord'', t_params = [\<lparr>p_name = ''1'', p_value = ''51.5''\<rparr>,
                                \<lparr>p_name = ''2'', p_value = ''-0.1''\<rparr>]\<rparr>"
proof -
  let ?a = "\<lparr>t_name = ''Coord'', t_params = [\<lparr>p_name = ''1'', p_value = ''51.5''\<rparr>,
                                \<lparr>p_name = ''2'', p_value = ''-0.1''\<rparr>]\<rparr>"
  have "tracks Cd ?a \<and> tracks Ac ?a \<and> tracks Tb ?a \<and> tracks Bd ?a \<and> tracks El ?a"
    by code_simp
  then show ?thesis by (cases w) simp_all
qed

lemma example_tracks_B:
  "tracks w \<lparr>t_name = ''Authority control'',
                    t_params = [\<lparr>p_name = ''VIAF'', p_value = ''1''\<rparr>,
                                \<lparr>p_name = ''LCCN'', p_value = ''2''\<rparr>]\<rparr>"
proof -
  let ?b = "\<lparr>t_name = ''Authority control'',
                    t_params = [\<lparr>p_name = ''VIAF'', p_value = ''1''\<rparr>,
                                \<lparr>p_name = ''LCCN'', p_value = ''2''\<rparr>]\<rparr>"
  have "tracks Cd ?b \<and> tracks Ac ?b \<and> tracks Tb ?b \<and> tracks Bd ?b \<and> tracks El ?b"
    by code_simp
  then show ?thesis by (cases w) simp_all
qed

section \<open>The three-page example\<close>

text \<open>
  Claim C5. A dump of three pages, all in namespace 0 and none a redirect, whose texts
  are \<open>{{Coord|51.5|-0.1}}\<close>, \<open>{{Authority control|VIAF=1|LCCN=2}}\<close> and
  \<open>{{Authority control|QID=Q1}}\<close>, is scanned with name tables that have \<open>coord\<close>
  for the family cd and \<open>authority_control\<close> for the family ac (and neither name for
  the other of the two; the tables of the remaining families are arbitrary). The run
  ends without error with cd.tracking = 1, ac.tracking = 1, ac.transclusion = 1,
  evaluated = 3, prob_wbc = 3 and actual_wbc = 1.
\<close>

theorem three_page_dump_counts:
  assumes "''coord'' \<in> nm Cd" "''authority_control'' \<in> nm Ac"
    "''authority_control'' \<notin> nm Cd" "''coord'' \<notin> nm Ac"
  shows "\<exists>s. main_scan nm [page_A, page_B, page_C] = Inr s
     \<and> tracking (wikidata_usage s Cd) = 1 \<and> transclusion (wikidata_usage s Cd) = 0
     \<and> tracking (wikidata_usage s Ac) = 1 \<and> transclusion (wikidata_usage s Ac) = 1
     \<and> evaluated s = 3 \<and> prob_wbc s = 3 \<and> actual_wbc s = 1"
proof -
  let ?a = "\<lparr>t_name = ''Coord'', t_params = [\<lparr>p_name = ''1'', p_value = ''51.5''\<rparr>,
                                \<lparr>p_name = ''2'', p_value = ''-0.1''\<rparr>]\<rparr>"
  let ?b = "\<lparr>t_name = ''Authority control'',
                    t_params = [\<lparr>p_name = ''VIAF'', p_value = ''1''\<rparr>,
                                \<lparr>p_name = ''LCCN'', p_value = ''2''\<rparr>]\<rparr>"
  let ?c = "\<lparr>t_name = ''Authority control'',
                    t_params = [\<lparr>p_name = ''QID'', p_value = ''Q1''\<rparr>]\<rparr>"
  have n1: "standardize_template_names ''Coord'' = ''coord''" by code_simp
  have n2: "standardize_template_names ''Authority control'' = ''authority_control''"
    by code_simp
  have ma: "matched nm ?a Cd" "\<not> matched nm ?a Ac"
    using assms by (simp_all add: matched_def n1)
  have mb: "\<not> matched nm ?b Cd" "matched nm ?b Ac"
    using assms by (simp_all add: matched_def n2)
  have mc: "\<not> matched nm ?c Cd" "matched nm ?c Ac"
    using assms by (simp_all add: matched_def n2)
  have art: "is_article page_A" "is_article page_B" "is_article page_C"
    by (simp_all add: is_article_def page_A_def page_B_def page_C_def)
  have revs: "revisions page_A = [[?a]]" "revisions page_B = [[?b]]" "revisions page_C = [[?c]]"
    by (simp_all add: page_A_def page_B_def page_C_def)
  have am: "any_match nm [?a]" "any_match nm [?b]" "any_match nm [?c]"
    using ma(1) mb(2) mc(2) by (auto simp add: any_match_def)
  have at: "\<not> any_transclusion nm [?a]" "\<not> any_transclusion nm [?b]"
    by (simp_all add: any_transclusion_def example_tracks_A example_tracks_B)
  have nt: "\<not> tracks Ac ?c" by code_simp
  have atc: "any_transclusion nm [?c]"
    using mc(2) nt by (auto simp add: any_transclusion_def)
  define s0 where "s0 = init_state\<lparr>idx := Some 1\<rparr>"
  obtain s1 where s1: "eval_page nm page_A s0 = Inr s1"
    "wikidata_usage s1 = count_invocation nm ?a (wikidata_usage s0)"
    "prob_wbc s1 = prob_wbc s0 + 1" "actual_wbc s1 = actual_wbc s0"
    "evaluated s1 = evaluated s0 + 1"
    using eval_page_effect [of nm page_A s0] art revs am at by auto
  obtain s2 where s2: "eval_page nm page_B (s1\<lparr>idx := Some 2\<rparr>) = Inr s2"
    "wikidata_usage s2 = count_invocation nm ?b (wikidata_usage s1)"
    "prob_wbc s2 = prob_wbc s1 + 1" "actual_wbc s2 = actual_wbc s1"
    "evaluated s2 = evaluated s1 + 1"
    using eval_page_effect [of nm page_B "s1\<lparr>idx := Some 2\<rparr>"] art revs am at by auto
  obtain s3 where s3: "eval_page nm page_C (s2\<lparr>idx := Some 3\<rparr>) = Inr s3"
    "wikidata_usage s3 = count_invocation nm ?c (wikidata_usage s2)"
    "prob_wbc s3 = prob_wbc s2 + 1" "actual_wbc s3 = actual_wbc s2 + 1"
    "evaluated s3 = evaluated s2 + 1" "idx s3 = Some 3"
    using eval_page_effect [of nm page_C "s2\<lparr>idx := Some 3\<rparr>"] art revs am atc by auto
  have scan: "scan_loop nm 1 [page_A, page_B, page_C] init_state = Inr s3"
    using s1(1) s2(1) s3(1) by (simp add: s0_def)
  have z: "wikidata_usage s0 = (\<lambda>w. \<lparr>tracking = 0, transclusion = 0\<rparr>)"
    "prob_wbc s0 = 0" "actual_wbc s0 = 0" "evaluated s0 = 0"
    by (simp_all add: s0_def init_state_def)
  have ev: "evaluated s3 = 3" "prob_wbc s3 = 3" "actual_wbc s3 = 1"
    using s1 s2 s3 z by simp_all
  have u: "tracking (wikidata_usage s3 Cd) = 1" "transclusion (wikidata_usage s3 Cd) = 0"
    "tracking (wikidata_usage s3 Ac) = 1" "transclusion (wikidata_usage s3 Ac) = 1"
    using ma mb mc nt
    by (simp_all add: s3(2) s2(2) s1(2) z(1) count_invocation_tracking
        count_invocation_transclusion example_tracks_A example_tracks_B)
  obtain s where "finish s3 = Inr s" "wikidata_usage s = wikidata_usage s3"
    "evaluated s = evaluated s3" "prob_wbc s = prob_wbc s3" "actual_wbc s = actual_wbc s3"
    using finish_ok [of s3 3] ev(1) s3(6) by auto
  then show ?thesis
    using scan ev u by (simp add: main_scan_def)
qed


theorem three_page_dump_counts_witness:
  "''coord'' \<in> example_names Cd \<and> ''authority_control'' \<in> example_names Ac
   \<and> ''authority_control'' \<notin> example_names Cd \<and> ''coord'' \<notin> example_names Ac
   \<and> tracking (wikidata_usage (final_state (main_scan example_names [page_A, page_B, page_C])) Cd) = 1
   \<and> tracking (wikidata_usage (final_state (main_scan example_names [page_A, page_B, page_C])) Ac) = 1
   \<and> transclusion (wikidata_usage (final_state (main_scan example_names [page_A, page_B, page_C])) Ac) = 1
   \<and> evaluated (final_state (main_scan example_names [page_A, page_B, page_C])) = 3
   \<and> prob_wbc (final_state (main_scan example_names [page_A, page_B, page_C])) = 3
   \<and> actual_wbc (final_state (main_scan example_names [page_A, page_B, page_C])) = 1"
proof -
  have h: "''coord'' \<in> example_names Cd" "''authority_control'' \<in> example_names Ac"
    "''authority_control'' \<notin> example_names Cd" "''coord'' \<notin> example_names Ac"
    by (simp_all add: example_names_def)
  show ?thesis
    using three_page_dump_counts [OF h] h
    by (auto simp add: final_state_def)
qed

section \<open>The usage counters\<close>

lemma usage_le_refl: "usage_le u u"
  by (simp add: usage_le_def)

lemma usage_le_trans: "usage_le u v \<Longrightarrow> usage_le v x \<Longrightarrow> usage_le u x"
  unfolding usage_le_def by (meson order_trans)

lemma count_invocation_le: "usage_le u (count_invocation nm t u)"
  by (simp add: usage_le_def count_invocation_tracking count_invocation_transclusion)

lemma count_invocations_le: "usage_le u (count_invocations nm ts u)"
proof (induction ts arbitrary: u)
  case Nil
  then show ?case by (simp add: usage_le_refl)
next
  case (Cons t ts)
  show ?case
    using usage_le_trans [OF count_invocation_le Cons.IH] by simp
qed

lemma eval_page_usage_le:
  "\<exists>s'. eval_page nm pg s = Inr s' \<and> usage_le (wikidata_usage s) (wikidata_usage s')"
  using eval_page_effect [of nm pg s]
  by (auto simp add: count_invocations_le usage_le_refl)

lemma print_summary_cases:
  "print_summary s = Inl (ZeroDivisionError, s) \<or> print_summary s = Inl (UnboundLocalError, s)
   \<or> (\<exists>l. print_summary s = Inr (s\<lparr>stdout := stdout s @ [l]\<rparr>))"
proof (cases "idx s")
  case None
  then show ?thesis by (simp add: print_summary_def summary_line_def)
next
  case (Some k)
  show ?thesis
  proof (cases "evaluated s = 0")
    case True
    then show ?thesis
      using Some by (simp add: print_summary_def summary_line_def py_truediv_def)
  next
    case False
    then have "print_summary s = Inr (s\<lparr>stdout := stdout s @
        [Line k (evaluated s) (prob_wbc s)
           (of_int (prob_wbc s * 100) / of_int (evaluated s)) (actual_wbc s)
           (of_int (100 * actual_wbc s) / of_int (evaluated s))
           (status_of (wikidata_usage s))]\<rparr>)"
      using Some by (simp add: print_summary_def summary_line_def py_truediv_def)
    then show ?thesis by blast
  qed
qed

lemma print_summary_usage:
  "wikidata_usage (final_state (print_summary s)) = wikidata_usage s"
  using print_summary_cases [of s] by (auto simp add: final_state_def)

lemma scan_loop_usage_le:
  "usage_le (wikidata_usage s) (wikidata_usage (final_state (scan_loop nm i pages s)))"
proof (induction pages arbitrary: i s)
  case Nil
  then show ?case by (simp add: final_state_def usage_le_refl)
next
  case (Cons pg pages)
  obtain s1 where s1: "eval_page nm pg (s\<lparr>idx := Some i\<rparr>) = Inr s1"
    "usage_le (wikidata_usage s) (wikidata_usage s1)"
    using eval_page_usage_le [of nm pg "s\<lparr>idx := Some i\<rparr>"] by auto
  show ?case
  proof (cases "i mod 10000 = 0")
    case False
    then have "scan_loop nm i (pg # pages) s = scan_loop nm (i + 1) pages s1"
      using s1(1) by simp
    then show ?thesis
      using usage_le_trans [OF s1(2) Cons.IH [of s1 "i + 1"]] by simp
  next
    case True
    consider (err) e where "print_summary s1 = Inl (e, s1)"
      | (ok) l where "print_summary s1 = Inr (s1\<lparr>stdout := stdout s1 @ [l]\<rparr>)"
      using print_summary_cases [of s1] by blast
    then show ?thesis
    proof cases
      case err
      then have "scan_loop nm i (pg # pages) s = Inl (e, s1)"
        using s1(1) True by simp
      then show ?thesis using s1(2) by (simp add: final_state_def)
    next
      case ok
      let ?s2 = "s1\<lparr>stdout := stdout s1 @ [l]\<rparr>"
      have "scan_loop nm i (pg # pages) s = scan_loop nm (i + 1) pages ?s2"
        using s1(1) True ok by simp
      moreover have "usage_le (wikidata_usage s) (wikidata_usage ?s2)"
        using s1(2) by simp
      ultimately show ?thesis
        using usage_le_trans [OF _ Cons.IH [of ?s2 "i + 1"]] by simp
    qed
  qed
qed

lemma scan_loop_append:
  "scan_loop nm i (xs @ ys) s =
     (case scan_loop nm i xs s of
        Inl e \<Rightarrow> Inl e
      | Inr s' \<Rightarrow> scan_loop nm (i + int (length xs)) ys s')"
proof (induction xs arbitrary: i s)
  case Nil
  then show ?case by simp
next
  case (Cons pg xs)
  have a: "i + 1 + int (length xs) = i + int (length (pg # xs))" by simp
  show ?case
    by (simp add: Cons.IH a split: sum.splits del: of_nat_Suc)
qed

lemma scan_loop_prefix_usage_le:
  "usage_le (wikidata_usage (final_state (scan_loop nm i (take k pages) s)))
            (wikidata_usage (final_state (scan_loop nm i pages s)))"
proof -
  have "scan_loop nm i pages s = scan_loop nm i (take k pages @ drop k pages) s"
    by simp
  also have "\<dots> = (case scan_loop nm i (take k pages) s of
        Inl e \<Rightarrow> Inl e
      | Inr s' \<Rightarrow> scan_loop nm (i + int (length (take k pages))) (drop k pages) s')"
    by (rule scan_loop_append)
  finally have e: "scan_loop nm i pages s = (case scan_loop nm i (take k pages) s of
        Inl e \<Rightarrow> Inl e
      | Inr s' \<Rightarrow> scan_loop nm (i + int (length (take k pages))) (drop k pages) s')" .
  show ?thesis
  proof (cases "scan_loop nm i (take k pages) s")
    case (Inl a)
    then show ?thesis using e by (simp add: usage_le_refl)
  next
    case (Inr s')
    then show ?thesis
      using e scan_loop_usage_le [of s' nm "i + int (length (take k pages))" "drop k pages"]
      by (simp add: final_state_def)
  qed
qed

lemma finish_usage: "wikidata_usage (final_state (finish s)) = wikidata_usage s"
  by (simp add: finish_def print_summary_usage write_report_fields)

lemma count_invocations_tracking:
  "tracking (count_invocations nm ts u w)
     = tracking (u w) + int (length (filter (\<lambda>t. matched nm t w \<and> tracks w t) ts))"
  by (induction ts arbitrary: u) (simp_all add: count_invocation_tracking)

lemma count_invocations_transclusion:
  "transclusion (count_invocations nm ts u w)
     = transclusion (u w) + int (length (filter (\<lambda>t. matched nm t w \<and> \<not> tracks w t) ts))"
  by (induction ts arbitrary: u) (simp_all add: count_invocation_transclusion)

lemma invocations_Cons:
  "invocations (pg # pages)
     = (if is_article pg then concat (revisions pg) else []) @ invocations pages"
  by (simp add: invocations_def)

lemma eval_page_usage:
  "\<exists>s'. eval_page nm pg s = Inr s'
     \<and> wikidata_usage s' = count_invocations nm (invocations [pg]) (wikidata_usage s)"
  using eval_page_effect [of nm pg s] by (auto simp add: invocations_def)

lemma scan_loop_usage:
  "\<exists>k \<le> length pages.
     (raised (scan_loop nm i pages s) = None \<longrightarrow> k = length pages)
     \<and> wikidata_usage (final_state (scan_loop nm i pages s))
         = count_invocations nm (invocations (take k pages)) (wikidata_usage s)"
proof (induction pages arbitrary: i s)
  case Nil
  then show ?case by (simp add: final_state_def invocations_def)
next
  case (Cons pg pages)
  obtain s1 where s1: "eval_page nm pg (s\<lparr>idx := Some i\<rparr>) = Inr s1"
    "wikidata_usage s1 = count_invocations nm (invocations [pg]) (wikidata_usage s)"
    using eval_page_usage [of nm pg "s\<lparr>idx := Some i\<rparr>"] by auto
  have step: "\<And>s2. wikidata_usage s2 = wikidata_usage s1 \<Longrightarrow>
    scan_loop nm i (pg # pages) s = scan_loop nm (i + 1) pages s2 \<Longrightarrow> ?case"
  proof -
    fix s2
    assume u: "wikidata_usage s2 = wikidata_usage s1"
      and e: "scan_loop nm i (pg # pages) s = scan_loop nm (i + 1) pages s2"
    obtain k where kk: "k \<le> length pages \<and>
      (raised (scan_loop nm (i + 1) pages s2) = None \<longrightarrow> k = length pages) \<and>
      wikidata_usage (final_state (scan_loop nm (i + 1) pages s2))
         = count_invocations nm (invocations (take k pages)) (wikidata_usage s2)"
      using Cons.IH [of "i + 1" s2] by (rule exE)
    note k = conjunct1 [OF kk] conjunct1 [OF conjunct2 [OF kk]] conjunct2 [OF conjunct2 [OF kk]]
    have iv: "invocations (take (Suc k) (pg # pages)) = invocations [pg] @ invocations (take k pages)"
      by (simp add: invocations_def)
    have "wikidata_usage (final_state (scan_loop nm (i + 1) pages s2))
         = count_invocations nm (invocations (take (Suc k) (pg # pages))) (wikidata_usage s)"
      by (simp only: k(3) u s1(2) iv count_invocations_append)
    then have c3: "wikidata_usage (final_state (scan_loop nm i (pg # pages) s))
         = count_invocations nm (invocations (take (Suc k) (pg # pages))) (wikidata_usage s)"
      by (simp only: e)
    have c1: "Suc k \<le> length (pg # pages)" using k(1) by simp
    have c2: "raised (scan_loop nm i (pg # pages) s) = None \<longrightarrow> Suc k = length (pg # pages)"
      using k(2) by (simp only: e) simp
    show ?case
      by (rule exI [of _ "Suc k"]) (intro conjI c1 c2 c3)
  qed
  show ?case
  proof (cases "i mod 10000 = 0")
    case False
    then have "scan_loop nm i (pg # pages) s = scan_loop nm (i + 1) pages s1"
      using s1(1) by simp
    then show ?thesis by (rule step [of s1, OF refl])
  next
    case True
    consider (err) e where "print_summary s1 = Inl (e, s1)"
      | (ok) l where "print_summary s1 = Inr (s1\<lparr>stdout := stdout s1 @ [l]\<rparr>)"
      using print_summary_cases [of s1] by blast
    then show ?thesis
    proof cases
      case err
      then have r: "scan_loop nm i (pg # pages) s = Inl (e, s1)"
        using s1(1) True by simp
      have c3: "wikidata_usage (final_state (scan_loop nm i (pg # pages) s))
            = count_invocations nm (invocations (take 1 (pg # pages))) (wikidata_usage s)"
        by (simp only: r) (simp add: final_state_def s1(2))
      have c2: "raised (scan_loop nm i (pg # pages) s) = None \<longrightarrow> 1 = length (pg # pages)"
        by (simp only: r) (simp add: raised_def)
      have c1: "(1 :: nat) \<le> length (pg # pages)" by simp
      show ?thesis
        by (rule exI [of _ 1]) (intro conjI c1 c2 c3)
    next
      case ok
      then have e2: "scan_loop nm i (pg # pages) s
                 = scan_loop nm (i + 1) pages (s1\<lparr>stdout := stdout s1 @ [l]\<rparr>)"
        using s1(1) True by simp
      have u2: "wikidata_usage (s1\<lparr>stdout := stdout s1 @ [l]\<rparr>) = wikidata_usage s1"
        by simp
      show ?thesis by (rule step [OF u2 e2])
    qed
  qed
qed


text \<open>
  Claim C6. For every template invocation that the scan loop processes and for every
  family, the invocation adds at most one to the counters of that family: if the family
  matches the invocation, exactly one of its two counters, tracking or transclusion,
  goes up by one and the other keeps its value, and if not, both keep their values.
  The scan loop does this once for each invocation and does nothing else to the
  counters: over the invocations of a revision, of a page, and of the pages read up to
  the end of the scan loop (all of them when the loop is not aborted), the tracking
  counter of a family goes up by the number of invocations that the family matches and
  classifies as tracking-only, and its transclusion counter by the number that it
  matches and classifies as transclusion; pages outside namespace 0 and redirects
  contribute no invocation. No counter is reset or lowered: from any state and through
  any dump, each counter at the end of the scan loop (or where the run is aborted) is at
  least what it was at the start and at least what it was after any shorter prefix of
  the dump; writing the report leaves the counters as they are.
\<close>

theorem usage_counters_one_increment_and_monotone:
  "(\<exists>s'. check_template nm t s = Inr s'
      \<and> (\<forall>w. (tracking (wikidata_usage s' w), transclusion (wikidata_usage s' w)) =
           (if matched nm t w
            then (if tracks w t
                  then (tracking (wikidata_usage s w) + 1, transclusion (wikidata_usage s w))
                  else (tracking (wikidata_usage s w), transclusion (wikidata_usage s w) + 1))
            else (tracking (wikidata_usage s w), transclusion (wikidata_usage s w)))))
   \<and> usage_le (wikidata_usage s) (wikidata_usage (final_state (scan_loop nm i dump s)))
   \<and> usage_le (wikidata_usage (final_state (scan_loop nm i (take k dump) s)))
               (wikidata_usage (final_state (scan_loop nm i dump s)))
   \<and> wikidata_usage (final_state (finish s)) = wikidata_usage s
   \<and> usage_le (wikidata_usage init_state) (wikidata_usage (final_state (main_scan nm dump)))
   \<and> (\<exists>s'. template_loop nm templates s = Inr s'
      \<and> (\<forall>w. tracking (wikidata_usage s' w) = tracking (wikidata_usage s w)
               + int (length (filter (\<lambda>t. matched nm t w \<and> tracks w t) templates))
            \<and> transclusion (wikidata_usage s' w) = transclusion (wikidata_usage s w)
               + int (length (filter (\<lambda>t. matched nm t w \<and> \<not> tracks w t) templates))))
   \<and> (\<exists>s'. eval_page nm pg s = Inr s'
      \<and> (\<forall>w. tracking (wikidata_usage s' w) = tracking (wikidata_usage s w)
               + int (length (filter (\<lambda>t. matched nm t w \<and> tracks w t) (invocations [pg])))
            \<and> transclusion (wikidata_usage s' w) = transclusion (wikidata_usage s w)
               + int (length (filter (\<lambda>t. matched nm t w \<and> \<not> tracks w t)
                                (invocations [pg])))))
   \<and> (\<exists>n \<le> length dump.
        (raised (scan_loop nm i dump s) = None \<longrightarrow> n = length dump)
      \<and> (\<forall>w. tracking (wikidata_usage (final_state (scan_loop nm i dump s)) w)
               = tracking (wikidata_usage s w)
                 + int (length (filter (\<lambda>t. matched nm t w \<and> tracks w t)
                                  (invocations (take n dump))))
            \<and> transclusion (wikidata_usage (final_state (scan_loop nm i dump s)) w)
               = transclusion (wikidata_usage s w)
                 + int (length (filter (\<lambda>t. matched nm t w \<and> \<not> tracks w t)
                                  (invocations (take n dump))))))"
proof -
  have c1: "\<exists>s'. check_template nm t s = Inr s'
      \<and> (\<forall>w. (tracking (wikidata_usage s' w), transclusion (wikidata_usage s' w)) =
           (if matched nm t w
            then (if tracks w t
                  then (tracking (wikidata_usage s w) + 1, transclusion (wikidata_usage s w))
                  else (tracking (wikidata_usage s w), transclusion (wikidata_usage s w) + 1))
            else (tracking (wikidata_usage s w), transclusion (wikidata_usage s w))))"
    by (simp add: check_template_effect count_invocation_def)
  have c2: "usage_le (wikidata_usage s) (wikidata_usage (final_state (scan_loop nm i dump s)))"
    by (rule scan_loop_usage_le)
  have c3: "usage_le (wikidata_usage (final_state (scan_loop nm i (take k dump) s)))
               (wikidata_usage (final_state (scan_loop nm i dump s)))"
    by (rule scan_loop_prefix_usage_le)
  have c4: "wikidata_usage (final_state (finish s)) = wikidata_usage s"
    by (rule finish_usage)
  have c5: "usage_le (wikidata_usage init_state)
              (wikidata_usage (final_state (main_scan nm dump)))"
  proof (cases "scan_loop nm 1 dump init_state")
    case (Inl a)
    then show ?thesis
      using scan_loop_usage_le [of init_state nm 1 dump] by (simp add: main_scan_def)
  next
    case (Inr s')
    then have "wikidata_usage (final_state (main_scan nm dump)) = wikidata_usage s'"
      by (simp add: main_scan_def finish_usage)
    moreover have "usage_le (wikidata_usage init_state) (wikidata_usage s')"
      using scan_loop_usage_le [of init_state nm 1 dump] Inr by (simp add: final_state_def)
    ultimately show ?thesis by simp
  qed
  have c6: "\<exists>s'. template_loop nm templates s = Inr s'
      \<and> (\<forall>w. tracking (wikidata_usage s' w) = tracking (wikidata_usage s w)
               + int (length (filter (\<lambda>t. matched nm t w \<and> tracks w t) templates))
            \<and> transclusion (wikidata_usage s' w) = transclusion (wikidata_usage s w)
               + int (length (filter (\<lambda>t. matched nm t w \<and> \<not> tracks w t) templates)))"
    by (simp add: template_loop_effect count_invocations_tracking
        count_invocations_transclusion)
  have c7: "\<exists>s'. eval_page nm pg s = Inr s'
      \<and> (\<forall>w. tracking (wikidata_usage s' w) = tracking (wikidata_usage s w)
               + int (length (filter (\<lambda>t. matched nm t w \<and> tracks w t) (invocations [pg])))
            \<and> transclusion (wikidata_usage s' w) = transclusion (wikidata_usage s w)
               + int (length (filter (\<lambda>t. matched nm t w \<and> \<not> tracks w t)
                                (invocations [pg]))))"
  proof -
    obtain s' where s': "eval_page nm pg s = Inr s' \<and>
        wikidata_usage s' = count_invocations nm (invocations [pg]) (wikidata_usage s)"
      using eval_page_usage [of nm pg s] by (rule exE)
    show ?thesis
      by (rule exI [of _ s'])
        (simp add: s' count_invocations_tracking count_invocations_transclusion)
  qed
  have c8: "\<exists>n \<le> length dump.
        (raised (scan_loop nm i dump s) = None \<longrightarrow> n = length dump)
      \<and> (\<forall>w. tracking (wikidata_usage (final_state (scan_loop nm i dump s)) w)
               = tracking (wikidata_usage s w)
                 + int (length (filter (\<lambda>t. matched nm t w \<and> tracks w t)
                                  (invocations (take n dump))))
            \<and> transclusion (wikidata_usage (final_state (scan_loop nm i dump s)) w)
               = transclusion (wikidata_usage s w)
                 + int (length (filter (\<lambda>t. matched nm t w \<and> \<not> tracks w t)
                                  (invocations (take n dump)))))"
  proof -
    obtain n where n: "n \<le> length dump \<and>
        (raised (scan_loop nm i dump s) = None \<longrightarrow> n = length dump) \<and>
        wikidata_usage (final_state (scan_loop nm i dump s))
          = count_invocations nm (invocations (take n dump)) (wikidata_usage s)"
      using scan_loop_usage [of dump nm i s] by (rule exE)
    show ?thesis
      by (rule exI [of _ n])
        (simp add: n count_invocations_tracking count_invocations_transclusion)
  qed
  show ?thesis
    by (intro conjI c1 c2 c3 c4 c5 c6 c7 c8)
qed

theorem usage_counters_one_increment_and_monotone_witness:
  "tracking (wikidata_usage (final_state (check_template example_names
      \<lparr>t_name = ''Authority control'', t_params = [\<lparr>p_name = ''QID'', p_value = ''Q1''\<rparr>]\<rparr>
      init_state)) Ac) = 0
   \<and> transclusion (wikidata_usage (final_state (check_template example_names
      \<lparr>t_name = ''Authority control'', t_params = [\<lparr>p_name = ''QID'', p_value = ''Q1''\<rparr>]\<rparr>
      init_state)) Ac) = 1
   \<and> transclusion (wikidata_usage (final_state (check_template example_names
      \<lparr>t_name = ''Authority control'', t_params = [\<lparr>p_name = ''QID'', p_value = ''Q1''\<rparr>]\<rparr>
      init_state)) Cd) = 0
   \<and> usage_le (wikidata_usage init_state)
        (wikidata_usage (final_state (scan_loop example_names 1 [page_A, page_B, page_C]
           init_state)))
   \<and> raised (scan_loop example_names 1 [page_A, page_B, page_C] init_state) = None
   \<and> tracking (wikidata_usage (final_state (scan_loop example_names 1
        [page_A, page_B, page_C] init_state)) Cd) = 1
   \<and> tracking (wikidata_usage (final_state (scan_loop example_names 1
        [page_A, page_B, page_C] init_state)) Ac) = 1
   \<and> transclusion (wikidata_usage (final_state (scan_loop example_names 1
        [page_A, page_B, page_C] init_state)) Ac) = 1"
proof -
  let ?c = "\<lparr>t_name = ''Authority control'', t_params = [\<lparr>p_name = ''QID'', p_value = ''Q1''\<rparr>]\<rparr>"
  let ?d = "[page_A, page_B, page_C]"
  define fs where "fs = final_state (scan_loop example_names 1 ?d init_state)"
  define rs where "rs = raised (scan_loop example_names 1 ?d init_state)"
  define cs where "cs = final_state (check_template example_names ?c init_state)"
  have m: "matched example_names ?c Ac" "\<not> tracks Ac ?c" "\<not> matched example_names ?c Cd"
    by code_simp+
  have z: "tracking (wikidata_usage init_state Ac) = 0"
    "transclusion (wikidata_usage init_state Ac) = 0"
    "transclusion (wikidata_usage init_state Cd) = 0"
    "tracking (wikidata_usage init_state Cd) = 0"
    by (simp_all add: init_state_def)
  note th = usage_counters_one_increment_and_monotone
    [where nm = example_names and t = ?c and s = init_state and i = 1 and dump = ?d
       and k = 1 and templates = "[?c]" and pg = page_C]
  obtain s' where s': "check_template example_names ?c init_state = Inr s' \<and>
    (\<forall>w. (tracking (wikidata_usage s' w), transclusion (wikidata_usage s' w)) =
       (if matched example_names ?c w
        then (if tracks w ?c
              then (tracking (wikidata_usage init_state w) + 1,
                    transclusion (wikidata_usage init_state w))
              else (tracking (wikidata_usage init_state w),
                    transclusion (wikidata_usage init_state w) + 1))
        else (tracking (wikidata_usage init_state w),
              transclusion (wikidata_usage init_state w))))"
    using th [THEN conjunct1] by (rule exE)
  have f: "cs = s'"
    unfolding cs_def by (simp only: conjunct1 [OF s']) (simp add: final_state_def)
  have a1: "tracking (wikidata_usage cs Ac) = 0 \<and> transclusion (wikidata_usage cs Ac) = 1"
    using s' [THEN conjunct2, rule_format, of Ac] m z by (simp add: f)
  have a2: "transclusion (wikidata_usage cs Cd) = 0"
    using s' [THEN conjunct2, rule_format, of Cd] m z by (simp add: f)
  have le: "usage_le (wikidata_usage init_state) (wikidata_usage fs)"
    unfolding fs_def using th by (rule conjunct2 [THEN conjunct1])
  have r: "rs = None"
    unfolding rs_def by code_simp
  have last: "\<exists>n \<le> length ?d.
        (rs = None \<longrightarrow> n = length ?d)
      \<and> (\<forall>w. tracking (wikidata_usage fs w)
               = tracking (wikidata_usage init_state w)
                 + int (length (filter (\<lambda>t. matched example_names t w \<and> tracks w t)
                                  (invocations (take n ?d))))
            \<and> transclusion (wikidata_usage fs w)
               = transclusion (wikidata_usage init_state w)
                 + int (length (filter (\<lambda>t. matched example_names t w \<and> \<not> tracks w t)
                                  (invocations (take n ?d)))))"
    unfolding fs_def rs_def
    using th
    by (rule conjunct2 [THEN conjunct2, THEN conjunct2, THEN conjunct2,
          THEN conjunct2, THEN conjunct2, THEN conjunct2])
  obtain n where n: "n \<le> length ?d \<and>
        (rs = None \<longrightarrow> n = length ?d)
      \<and> (\<forall>w. tracking (wikidata_usage fs w)
               = tracking (wikidata_usage init_state w)
                 + int (length (filter (\<lambda>t. matched example_names t w \<and> tracks w t)
                                  (invocations (take n ?d))))
            \<and> transclusion (wikidata_usage fs w)
               = transclusion (wikidata_usage init_state w)
                 + int (length (filter (\<lambda>t. matched example_names t w \<and> \<not> tracks w t)
                                  (invocations (take n ?d)))))"
    using last by (rule exE)
  have "n = length ?d"
    using n [THEN conjunct2, THEN conjunct1] r by simp
  then have n3: "take n ?d = ?d"
    by simp
  have l1: "length (filter (\<lambda>t. matched example_names t Cd \<and> tracks Cd t) (invocations ?d)) = 1"
    by code_simp
  have l2: "length (filter (\<lambda>t. matched example_names t Ac \<and> tracks Ac t) (invocations ?d)) = 1"
    by code_simp
  have l3: "length (filter (\<lambda>t. matched example_names t Ac \<and> \<not> tracks Ac t) (invocations ?d)) = 1"
    by code_simp
  note nw = n [THEN conjunct2, THEN conjunct2, rule_format]
  have b1: "tracking (wikidata_usage fs Cd) = 1"
    using nw [of Cd, THEN conjunct1] by (simp only: n3 l1 z)
  have b2: "tracking (wikidata_usage fs Ac) = 1"
    using nw [of Ac, THEN conjunct1] by (simp only: n3 l2 z)
  have b3: "transclusion (wikidata_usage fs Ac) = 1"
    using nw [of Ac, THEN conjunct2] by (simp only: n3 l3 z)
  show ?thesis
    unfolding fs_def [symmetric] rs_def [symmetric] cs_def [symmetric]
    using a1 a2 le r b1 b2 b3 by simp
qed

section \<open>The summary statement when no page was evaluated\<close>

lemma print_summary_zero:
  "evaluated s = 0 \<Longrightarrow> idx s = Some k \<Longrightarrow> print_summary s = Inl (ZeroDivisionError, s)"
  by (simp add: print_summary_def summary_line_def py_truediv_def)

lemma eval_page_not_article: "\<not> is_article pg \<Longrightarrow> eval_page nm pg s = Inr s"
  by (simp add: eval_page_def)

lemma scan_loop_idx:
  "scan_loop nm i pages s = Inr s' \<Longrightarrow> pages \<noteq> [] \<Longrightarrow>
   idx s' = Some (i + int (length pages) - 1)"
proof (induction pages arbitrary: i s)
  case Nil
  then show ?case by simp
next
  case (Cons pg pages)
  obtain s1 where s1: "eval_page nm pg (s\<lparr>idx := Some i\<rparr>) = Inr s1" "idx s1 = Some i"
    using eval_page_effect [of nm pg "s\<lparr>idx := Some i\<rparr>"] by auto
  obtain s2 where s2: "scan_loop nm (i + 1) pages s2 = Inr s'" "idx s2 = Some i"
  proof (cases "i mod 10000 = 0")
    case False
    then have "scan_loop nm (i + 1) pages s1 = Inr s'"
      using Cons.prems(1) s1(1) by simp
    then show ?thesis using that s1(2) by blast
  next
    case True
    consider (err) e where "print_summary s1 = Inl (e, s1)"
      | (ok) l where "print_summary s1 = Inr (s1\<lparr>stdout := stdout s1 @ [l]\<rparr>)"
      using print_summary_cases [of s1] by blast
    then show ?thesis
    proof cases
      case err
      then have "scan_loop nm i (pg # pages) s = Inl (e, s1)"
        using s1(1) True by simp
      then show ?thesis using Cons.prems(1) by simp
    next
      case ok
      then have "scan_loop nm (i + 1) pages (s1\<lparr>stdout := stdout s1 @ [l]\<rparr>) = Inr s'"
        using Cons.prems(1) s1(1) True by simp
      then show ?thesis using that [of "s1\<lparr>stdout := stdout s1 @ [l]\<rparr>"] s1(2) by simp
    qed
  qed
  show ?case
  proof (cases "pages = []")
    case True
    then show ?thesis using s2 by simp
  next
    case False
    then show ?thesis using Cons.IH [OF s2(1)] by simp
  qed
qed

lemma scan_loop_no_articles:
  assumes "\<forall>pg \<in> set pages. \<not> is_article pg" "evaluated s = 0"
  shows "\<exists>s'. (scan_loop nm i pages s = Inl (ZeroDivisionError, s')
                \<or> scan_loop nm i pages s = Inr s')
           \<and> evaluated s' = 0 \<and> stdout s' = stdout s"
  using assms
proof (induction pages arbitrary: i s)
  case Nil
  then show ?case by simp
next
  case (Cons pg pages)
  let ?s1 = "s\<lparr>idx := Some i\<rparr>"
  have e: "eval_page nm pg ?s1 = Inr ?s1"
    using Cons.prems(1) by (simp add: eval_page_not_article)
  show ?case
  proof (cases "i mod 10000 = 0")
    case True
    have "print_summary ?s1 = Inl (ZeroDivisionError, ?s1)"
      using Cons.prems(2) by (simp add: print_summary_zero)
    then have "scan_loop nm i (pg # pages) s = Inl (ZeroDivisionError, ?s1)"
      using e True by simp
    then show ?thesis using Cons.prems(2) by simp
  next
    case False
    then have "scan_loop nm i (pg # pages) s = scan_loop nm (i + 1) pages ?s1"
      using e by simp
    then show ?thesis
      using Cons.IH [of ?s1 "i + 1"] Cons.prems by simp
  qed
qed

text \<open>
  Claim C9, as stated: whenever the end of the dump is reached with \<open>evaluated\<close>
  equal to 0, the run ends with a division by zero. On a dump with no page the run ends
  with another error: the loop variable \<open>i\<close> was never bound, and it is the first
  argument of the summary statement.
\<close>

theorem empty_dump_counterexample:
  "evaluated (final_state (main_scan no_names [])) = 0
   \<and> main_scan no_names [] = Inl (UnboundLocalError, write_report init_state)
   \<and> raised (main_scan no_names []) \<noteq> Some ZeroDivisionError"
  by (simp add: main_scan_def finish_def print_summary_def summary_line_def
      write_report_fields final_state_def init_state_def raised_def)

text \<open>
  Claim C9, amended. The progress and summary statement divides by \<open>evaluated\<close> with
  no guard: executed with \<open>evaluated\<close> equal to 0 and the loop variable bound, it
  raises a division by zero and prints nothing. So when a page whose number is a
  multiple of 10000 is reached, or the end of a dump with at least one page is reached,
  while no namespace-0, non-redirect page has been seen, the run ends with an unhandled
  division by zero instead of the statistics line (at the end, after the report file is
  written). A dump with at least one page and no page to evaluate always ends so,
  with nothing printed.
\<close>

theorem summary_division_by_zero:
  "(evaluated s = 0 \<and> idx s = Some k \<longrightarrow> print_summary s = Inl (ZeroDivisionError, s))
   \<and> (i mod 10000 = 0 \<and> eval_page nm pg (s0\<lparr>idx := Some i\<rparr>) = Inr s1 \<and> evaluated s1 = 0 \<longrightarrow>
        scan_loop nm i (pg # pages) s0 = Inl (ZeroDivisionError, s1) \<and> stdout s1 = stdout s0)
   \<and> (dump \<noteq> [] \<and> scan_loop nm 1 dump init_state = Inr s2 \<and> evaluated s2 = 0 \<longrightarrow>
        main_scan nm dump = Inl (ZeroDivisionError, write_report s2)
        \<and> stdout (write_report s2) = stdout s2)
   \<and> (dump \<noteq> [] \<and> (\<forall>pg \<in> set dump. \<not> is_article pg) \<longrightarrow>
        raised (main_scan nm dump) = Some ZeroDivisionError
        \<and> stdout (final_state (main_scan nm dump)) = [])"
proof (intro conjI impI)
  assume "evaluated s = 0 \<and> idx s = Some k"
  then show "print_summary s = Inl (ZeroDivisionError, s)"
    by (simp add: print_summary_zero)
next
  assume a: "i mod 10000 = 0 \<and> eval_page nm pg (s0\<lparr>idx := Some i\<rparr>) = Inr s1 \<and> evaluated s1 = 0"
  have "idx s1 = Some i"
    using eval_page_effect [of nm pg "s0\<lparr>idx := Some i\<rparr>"] a by auto
  then have "print_summary s1 = Inl (ZeroDivisionError, s1)"
    using a by (simp add: print_summary_zero)
  then show "scan_loop nm i (pg # pages) s0 = Inl (ZeroDivisionError, s1)"
    using a by simp
  show "stdout s1 = stdout s0"
    using eval_page_effect [of nm pg "s0\<lparr>idx := Some i\<rparr>"] a by auto
next
  assume a: "dump \<noteq> [] \<and> scan_loop nm 1 dump init_state = Inr s2 \<and> evaluated s2 = 0"
  then have "idx s2 = Some (1 + int (length dump) - 1)"
    using scan_loop_idx [of nm 1 dump init_state s2] by simp
  then have "print_summary (write_report s2) = Inl (ZeroDivisionError, write_report s2)"
    using a by (simp add: print_summary_zero write_report_fields)
  then show "main_scan nm dump = Inl (ZeroDivisionError, write_report s2)"
    using a by (simp add: main_scan_def finish_def)
  show "stdout (write_report s2) = stdout s2"
    by (simp add: write_report_fields)
next
  assume a: "dump \<noteq> [] \<and> (\<forall>pg \<in> set dump. \<not> is_article pg)"
  obtain s' where s': "scan_loop nm 1 dump init_state = Inl (ZeroDivisionError, s')
                \<or> scan_loop nm 1 dump init_state = Inr s'"
    "evaluated s' = 0" "stdout s' = stdout init_state"
    using scan_loop_no_articles [of dump init_state nm 1] a by (auto simp add: init_state_def)
  have o: "stdout s' = []" using s'(3) by (simp add: init_state_def)
  have "\<exists>s'. main_scan nm dump = Inl (ZeroDivisionError, s') \<and> stdout s' = []"
    using s'(1)
  proof
    assume "scan_loop nm 1 dump init_state = Inl (ZeroDivisionError, s')"
    then show ?thesis using o by (simp add: main_scan_def)
  next
    assume r: "scan_loop nm 1 dump init_state = Inr s'"
    then have "idx s' = Some (1 + int (length dump) - 1)"
      using scan_loop_idx [of nm 1 dump init_state s'] a by simp
    then have "print_summary (write_report s') = Inl (ZeroDivisionError, write_report s')"
      using s'(2) by (simp add: print_summary_zero write_report_fields)
    then show ?thesis
      using r o by (simp add: main_scan_def finish_def write_report_fields)
  qed
  then show "raised (main_scan nm dump) = Some ZeroDivisionError"
    and "stdout (final_state (main_scan nm dump)) = []"
    by (auto simp add: raised_def final_state_def)
qed

theorem summary_division_by_zero_witness:
  "\<not> is_article template_page
   \<and> print_summary (init_state\<lparr>idx := Some 10000\<rparr>)
       = Inl (ZeroDivisionError, init_state\<lparr>idx := Some 10000\<rparr>)
   \<and> scan_loop no_names 10000 [template_page] init_state
       = Inl (ZeroDivisionError, init_state\<lparr>idx := Some 10000\<rparr>)
   \<and> main_scan no_names [template_page]
       = Inl (ZeroDivisionError, write_report (init_state\<lparr>idx := Some 1\<rparr>))
   \<and> raised (main_scan no_names [template_page]) = Some ZeroDivisionError
   \<and> stdout (final_state (main_scan no_names [template_page])) = []"
proof -
  let ?b = "init_state\<lparr>idx := Some 10000\<rparr>"
  let ?e = "init_state\<lparr>idx := Some 1\<rparr>"
  have na: "\<not> is_article template_page"
    by (simp add: is_article_def template_page_def)
  have h1: "evaluated ?b = 0 \<and> idx ?b = Some 10000"
    by (simp add: init_state_def)
  have e1: "eval_page no_names template_page ?b = Inr ?b"
    using na by (simp add: eval_page_def)
  have h2: "(10000 :: int) mod 10000 = 0
            \<and> eval_page no_names template_page (init_state\<lparr>idx := Some 10000\<rparr>) = Inr ?b
            \<and> evaluated ?b = 0"
    using e1 h1 by simp
  have sc: "scan_loop no_names 1 [template_page] init_state = Inr ?e"
    using na by (simp add: eval_page_def)
  have h3: "[template_page] \<noteq> [] \<and> scan_loop no_names 1 [template_page] init_state = Inr ?e
            \<and> evaluated ?e = 0"
    using sc by (simp add: init_state_def)
  have h4: "[template_page] \<noteq> [] \<and> (\<forall>pg \<in> set [template_page]. \<not> is_article pg)"
    using na by simp
  note th = summary_division_by_zero
    [of ?b 10000 10000 no_names template_page init_state ?b "[]" "[template_page]" ?e]
  have c1: "print_summary ?b = Inl (ZeroDivisionError, ?b)"
    using th h1 by blast
  have c2: "scan_loop no_names 10000 [template_page] init_state = Inl (ZeroDivisionError, ?b)"
    using th h2 by blast
  have c3: "main_scan no_names [template_page] = Inl (ZeroDivisionError, write_report ?e)"
    using th h3 by blast
  have c4: "raised (main_scan no_names [template_page]) = Some ZeroDivisionError
            \<and> stdout (final_state (main_scan no_names [template_page])) = []"
    using th h4 by blast
  show ?thesis
    using na c1 c2 c3 c4 by blast
qed

section \<open>The report file\<close>

lemma split_on_not_Nil: "split_on c xs \<noteq> []"
  by (induction xs) (auto split: list.splits)

lemma split_on_no_sep: "c \<notin> set a \<Longrightarrow> split_on c a = [a]"
  by (induction a) auto

lemma split_on_append: "c \<notin> set a \<Longrightarrow> split_on c (a @ c # rest) = a # split_on c rest"
  by (induction a) (auto split: list.splits simp add: split_on_not_Nil)

lemma split_on_three:
  assumes "c \<notin> set x" "c \<notin> set y" "c \<notin> set z"
  shows "split_on c (x @ [c] @ y @ [c] @ z) = [x, y, z]"
  using assms by (simp add: split_on_append split_on_no_sep)

lemma split_lines:
  "\<forall>l \<in> set ls. c \<notin> set l \<Longrightarrow>
   split_on c (concat (map (\<lambda>l. l @ [c]) ls)) = ls @ [[]]"
  by (induction ls) (simp_all add: split_on_append)

lemma digit_char: "d < 10 \<Longrightarrow> of_char (char_of (48 + d :: nat)) = 48 + d"
  by simp

lemma digits_are_digits: "\<forall>c \<in> set (digits n). is_digit c"
proof (induction n rule: digits.induct)
  case (1 n)
  show ?case
  proof (cases "n < 10")
    case True
    then show ?thesis
      by (subst digits.simps) (simp add: is_digit_def)
  next
    case False
    have "n mod 10 < 10" by simp
    then have "is_digit (char_of (48 + n mod 10))"
      by (simp add: is_digit_def)
    then show ?thesis
      using False 1 by (subst digits.simps) simp
  qed
qed

lemma is_digit_not_sep: "is_digit c \<Longrightarrow> c \<noteq> tab \<and> c \<noteq> newline \<and> c \<noteq> CHR ''-''"
  by (auto simp add: is_digit_def tab_def newline_def)

lemma str_int_no_sep: "tab \<notin> set (str_int k)" "newline \<notin> set (str_int k)"
  using digits_are_digits is_digit_not_sep
  by (auto simp add: str_int_def tab_def newline_def)

lemma tag_no_sep: "tab \<notin> set (tag w)" "newline \<notin> set (tag w)"
  by (cases w; simp add: tab_def newline_def)+

lemma int_of_digits_digits: "int_of_digits (digits n) = int n"
proof (induction n rule: digits.induct)
  case (1 n)
  show ?case
  proof (cases "n < 10")
    case True
    then show ?thesis
      by (subst digits.simps) (simp add: int_of_digits_def)
  next
    case False
    have m: "n mod 10 < 10" by simp
    have "int_of_digits (digits n)
          = 10 * int_of_digits (digits (n div 10)) + (int (of_char (char_of (48 + n mod 10))) - 48)"
      using False by (subst digits.simps) (simp add: int_of_digits_def)
    also have "\<dots> = 10 * int (n div 10) + int (n mod 10)"
      using 1 False m by simp
    also have "\<dots> = int n"
      by (simp add: zdiv_int zmod_int)
    finally show ?thesis .
  qed
qed

lemma digits_not_Nil: "digits n \<noteq> []"
  by (subst digits.simps) simp

lemma hd_digits_not_minus: "hd (digits n) \<noteq> CHR ''-''"
  using digits_are_digits [of n] digits_not_Nil [of n] is_digit_not_sep
  by (cases "digits n") auto

lemma int_of_str_str_int: "int_of_str (str_int k) = k"
proof (cases "k < 0")
  case True
  then show ?thesis
    by (simp add: str_int_def int_of_str_def int_of_digits_digits)
next
  case False
  obtain c r where d: "digits (nat k) = c # r"
    using digits_not_Nil [of "nat k"] by (cases "digits (nat k)") auto
  then have "c \<noteq> CHR ''-''"
    using hd_digits_not_minus [of "nat k"] by simp
  then have "int_of_str (digits (nat k)) = int_of_digits (digits (nat k))"
    using d by (simp add: int_of_str_def)
  then show ?thesis
    using False by (simp add: str_int_def int_of_digits_digits)
qed

lemma write_rows_fout:
  "fout (write_rows ws s)
   = map_option (\<lambda>content. content @ concat (map (\<lambda>w. family_row s w @ [newline]) ws)) (fout s)"
proof (induction ws arbitrary: s)
  case Nil
  then show ?case by (simp add: option.map_ident)
next
  case (Cons w ws)
  have r: "\<And>x v. family_row (fout_write x s) v = family_row s v"
    by (simp add: family_row_def fout_write_fields)
  show ?case
    by (simp add: Cons.IH r fout_write_def family_row_def tsv_line_def option.map_comp
        comp_def)
qed

lemma write_report_fout:
  "fout (write_report s) =
     Some (concat (map (\<lambda>l. l @ [newline])
       ([tsv_line ''type'' ''transclusion'' ''tracking'',
         tsv_line (''total:'' @ str_int (evaluated s)) [] [],
         tsv_line ''wbc_estimate'' (str_int (actual_wbc s))
           (str_int (prob_wbc s - actual_wbc s))]
        @ map (family_row s) families)))"
  by (simp add: write_report_def Let_def write_rows_fout fout_write_def family_row_def
      tsv_line_def comp_def)


lemma print_summary_fout: "fout (final_state (print_summary s)) = fout s"
  using print_summary_cases [of s] by (auto simp add: final_state_def)

lemma scan_loop_fout: "fout (final_state (scan_loop nm i pages s)) = fout s"
proof (induction pages arbitrary: i s)
  case Nil
  then show ?case by (simp add: final_state_def)
next
  case (Cons pg pages)
  obtain s1 where s1: "eval_page nm pg (s\<lparr>idx := Some i\<rparr>) = Inr s1" "fout s1 = fout s"
    using eval_page_effect [of nm pg "s\<lparr>idx := Some i\<rparr>"] by auto
  show ?case
  proof (cases "i mod 10000 = 0")
    case False
    then show ?thesis using s1 Cons.IH [of "i + 1" s1] by simp
  next
    case True
    consider (err) e where "print_summary s1 = Inl (e, s1)"
      | (ok) l where "print_summary s1 = Inr (s1\<lparr>stdout := stdout s1 @ [l]\<rparr>)"
      using print_summary_cases [of s1] by blast
    then show ?thesis
    proof cases
      case err
      then show ?thesis using s1 True by (simp add: final_state_def)
    next
      case ok
      then show ?thesis
        using s1 True Cons.IH [of "i + 1" "s1\<lparr>stdout := stdout s1 @ [l]\<rparr>"] by simp
    qed
  qed
qed

text \<open>
  Claim C8. At the end of the scan the output file is written, whether the summary
  statement that follows succeeds or not. Read back as tab-separated lines, it has
  exactly these rows: the header with the columns \<open>type\<close>, \<open>transclusion\<close>,
  \<open>tracking\<close>; the row \<open>total:\<close> followed by the number of evaluated pages, with two
  empty columns; the row \<open>wbc_estimate\<close> with \<open>actual_wbc\<close> in the transclusion
  column and \<open>prob_wbc - actual_wbc\<close> in the tracking column; and then one row for each
  family, in the order cd, ac, tb, bd, el, with the family's transclusion count and its
  tracking count in that order. The numbers are written in decimal and read back as
  themselves. A run that is aborted during the scan leaves no file.
\<close>

theorem report_rows:
  "(\<exists>content. fout (final_state (finish s)) = Some content
      \<and> last (split_on newline content) = []
      \<and> tsv_rows content =
          [[''type'', ''transclusion'', ''tracking''],
           [''total:'' @ str_int (evaluated s), [], []],
           [''wbc_estimate'', str_int (actual_wbc s), str_int (prob_wbc s - actual_wbc s)]]
          @ map (\<lambda>w. [tag w, str_int (transclusion (wikidata_usage s w)),
                        str_int (tracking (wikidata_usage s w))])
                [Cd, Ac, Tb, Bd, El])
   \<and> int_of_str (str_int k) = k
   \<and> (scan_loop nm 1 dump init_state = Inr s \<longrightarrow> main_scan nm dump = finish s)
   \<and> (scan_loop nm 1 dump init_state = Inl (e, s') \<longrightarrow>
        fout (final_state (main_scan nm dump)) = None)"
proof (intro conjI impI)
  let ?ls = "[tsv_line ''type'' ''transclusion'' ''tracking'',
         tsv_line (''total:'' @ str_int (evaluated s)) [] [],
         tsv_line ''wbc_estimate'' (str_int (actual_wbc s))
           (str_int (prob_wbc s - actual_wbc s))]
        @ map (family_row s) families"
  let ?content = "concat (map (\<lambda>l. l @ [newline]) ?ls)"
  have f: "fout (final_state (finish s)) = Some ?content"
    by (simp only: finish_def print_summary_fout write_report_fout)
  have nl: "\<forall>l \<in> set ?ls. newline \<notin> set l"
    using str_int_no_sep(2) tag_no_sep(2)
    by (auto simp add: tsv_line_def family_row_def tab_def newline_def)
  have sp: "split_on newline ?content = ?ls @ [[]]"
    using nl by (rule split_lines)
  have t1: "split_on tab (tsv_line ''type'' ''transclusion'' ''tracking'')
            = [''type'', ''transclusion'', ''tracking'']"
    unfolding tsv_line_def by (rule split_on_three) (simp_all add: tab_def)
  have t2: "split_on tab (tsv_line (''total:'' @ str_int (evaluated s)) [] [])
            = [''total:'' @ str_int (evaluated s), [], []]"
    unfolding tsv_line_def
    by (rule split_on_three) (simp_all add: str_int_no_sep, simp add: tab_def)
  have t3: "split_on tab (tsv_line ''wbc_estimate'' (str_int (actual_wbc s))
              (str_int (prob_wbc s - actual_wbc s)))
            = [''wbc_estimate'', str_int (actual_wbc s), str_int (prob_wbc s - actual_wbc s)]"
    unfolding tsv_line_def
    by (rule split_on_three) (simp_all add: str_int_no_sep, simp add: tab_def)
  have t4: "\<And>w. split_on tab (family_row s w)
            = [tag w, str_int (transclusion (wikidata_usage s w)),
               str_int (tracking (wikidata_usage s w))]"
    unfolding family_row_def tsv_line_def
    by (rule split_on_three) (simp_all add: str_int_no_sep tag_no_sep)
  have rows: "tsv_rows ?content =
          [[''type'', ''transclusion'', ''tracking''],
           [''total:'' @ str_int (evaluated s), [], []],
           [''wbc_estimate'', str_int (actual_wbc s), str_int (prob_wbc s - actual_wbc s)]]
          @ map (\<lambda>w. [tag w, str_int (transclusion (wikidata_usage s w)),
                        str_int (tracking (wikidata_usage s w))])
                [Cd, Ac, Tb, Bd, El]"
  proof -
    have "butlast (?ls @ [[]]) = ?ls"
      by (rule butlast_snoc)
    then have "tsv_rows ?content = map (split_on tab) ?ls"
      by (simp only: tsv_rows_def sp)
    also have "\<dots> =
          [[''type'', ''transclusion'', ''tracking''],
           [''total:'' @ str_int (evaluated s), [], []],
           [''wbc_estimate'', str_int (actual_wbc s), str_int (prob_wbc s - actual_wbc s)]]
          @ map (\<lambda>w. [tag w, str_int (transclusion (wikidata_usage s w)),
                        str_int (tracking (wikidata_usage s w))])
                [Cd, Ac, Tb, Bd, El]"
      by (simp only: map_append list.map t1 t2 t3 t4 families_def)
    finally show ?thesis .
  qed
  show "\<exists>content. fout (final_state (finish s)) = Some content
      \<and> last (split_on newline content) = []
      \<and> tsv_rows content =
          [[''type'', ''transclusion'', ''tracking''],
           [''total:'' @ str_int (evaluated s), [], []],
           [''wbc_estimate'', str_int (actual_wbc s), str_int (prob_wbc s - actual_wbc s)]]
          @ map (\<lambda>w. [tag w, str_int (transclusion (wikidata_usage s w)),
                        str_int (tracking (wikidata_usage s w))])
                [Cd, Ac, Tb, Bd, El]"
    using f sp rows by (intro exI [of _ ?content]) simp
next
  show "int_of_str (str_int k) = k"
    by (rule int_of_str_str_int)
next
  assume "scan_loop nm 1 dump init_state = Inr s"
  then show "main_scan nm dump = finish s"
    by (simp add: main_scan_def)
next
  assume a: "scan_loop nm 1 dump init_state = Inl (e, s')"
  have "fout (final_state (scan_loop nm 1 dump init_state)) = fout init_state"
    by (rule scan_loop_fout)
  then show "fout (final_state (main_scan nm dump)) = None"
    using a by (simp add: main_scan_def init_state_def)
qed

theorem report_rows_witness:
  "scan_loop no_names 1 [] init_state = Inr init_state
   \<and> main_scan no_names [] = finish init_state
   \<and> tsv_rows (the (fout (final_state (finish init_state)))) =
       [[''type'', ''transclusion'', ''tracking''],
        [''total:0'', [], []],
        [''wbc_estimate'', ''0'', ''0''],
        [''cd'', ''0'', ''0''], [''ac'', ''0'', ''0''], [''tb'', ''0'', ''0''],
        [''bd'', ''0'', ''0''], [''el'', ''0'', ''0'']]
   \<and> scan_loop no_names 10000 [template_page] init_state
       = Inl (ZeroDivisionError, init_state\<lparr>idx := Some 10000\<rparr>)"
proof -
  have sc: "scan_loop no_names 1 [] init_state = Inr init_state"
    by simp
  have z: "str_int 0 = ''0''" by code_simp
  have i: "evaluated init_state = 0" "actual_wbc init_state = 0" "prob_wbc init_state = 0"
    "\<And>w. transclusion (wikidata_usage init_state w) = 0"
    "\<And>w. tracking (wikidata_usage init_state w) = 0"
    by (simp_all add: init_state_def)
  have ab: "scan_loop no_names 10000 [template_page] init_state
       = Inl (ZeroDivisionError, init_state\<lparr>idx := Some 10000\<rparr>)"
    by (simp add: eval_page_def is_article_def template_page_def print_summary_zero
        init_state_def)
  note th = report_rows [of init_state 0 no_names "[]" ZeroDivisionError init_state]
  have m: "main_scan no_names [] = finish init_state"
    using th sc by blast
  obtain content where c: "fout (final_state (finish init_state)) = Some content"
    "tsv_rows content =
          [[''type'', ''transclusion'', ''tracking''],
           [''total:'' @ str_int (evaluated init_state), [], []],
           [''wbc_estimate'', str_int (actual_wbc init_state),
            str_int (prob_wbc init_state - actual_wbc init_state)]]
          @ map (\<lambda>w. [tag w, str_int (transclusion (wikidata_usage init_state w)),
                        str_int (tracking (wikidata_usage init_state w))])
                [Cd, Ac, Tb, Bd, El]"
    using th by blast
  have "tsv_rows (the (fout (final_state (finish init_state)))) =
       [[''type'', ''transclusion'', ''tracking''],
        [''total:0'', [], []],
        [''wbc_estimate'', ''0'', ''0''],
        [''cd'', ''0'', ''0''], [''ac'', ''0'', ''0''], [''tb'', ''0'', ''0''],
        [''bd'', ''0'', ''0''], [''el'', ''0'', ''0'']]"
    using c by (simp add: i z)
  then show ?thesis
    using sc m ab by blast
qed

end
